theory Spec2Isabelle
  imports Main "HOL-Library.AList" "HOL-Library.Sublist"
begin

section \<open>Python values used by the chat programs\<close>

text \<open>
  A Python \<open>str\<close> is a sequence of Unicode code points, a \<open>bytes\<close> object a sequence of
  8-bit values.  Socket objects are compared by identity only, so a socket is a number.
\<close>

type_synonym pystr = "nat list"
type_synonym bytes = "char list"
type_synonym sock = nat

text \<open>The code points of an ASCII literal of the source.\<close>

definition ascii :: "string \<Rightarrow> pystr" where
  "ascii cs = map of_char cs"

text \<open>
  The exceptions the two programs can meet: an \<open>OSError\<close> of the socket layer (with its
  message), the \<open>UnicodeEncodeError\<close> of \<open>str.encode\<close>, and the \<open>ValueError\<close> of a
  failed tuple unpacking.
\<close>

datatype exn = OSError string | UnicodeEncodeError | ValueError

text \<open>
  \<open>str.isspace\<close> for one character, which is what \<open>str.strip()\<close> without argument
  removes: the code points CPython lists as whitespace.
\<close>

definition isspace :: "nat \<Rightarrow> bool" where
  "isspace c \<longleftrightarrow>
     (9 \<le> c \<and> c \<le> 13) \<or> (28 \<le> c \<and> c \<le> 32) \<or> c = 133 \<or> c = 160 \<or> c = 5760 \<or>
     (8192 \<le> c \<and> c \<le> 8202) \<or> c = 8232 \<or> c = 8233 \<or> c = 8239 \<or> c = 8287 \<or> c = 12288"

definition strip :: "pystr \<Rightarrow> pystr" where
  "strip t = rev (dropWhile isspace (rev (dropWhile isspace t)))"

definition startswith :: "pystr \<Rightarrow> pystr \<Rightarrow> bool" where
  "startswith t p \<longleftrightarrow> take (length p) t = p"

subsection \<open>UTF-8\<close>

text \<open>
  \<open>str.encode("utf-8")\<close>: one to four bytes per code point; a surrogate raises
  \<open>UnicodeEncodeError\<close>.  (A value from \<open>0x110000\<close> on is no Python character; the
  encoder rejects it too.)
\<close>

definition encode_char :: "nat \<Rightarrow> bytes option" where
  "encode_char c =
     (if c < 128 then Some [char_of c]
      else if c < 2048 then Some [char_of (192 + c div 64), char_of (128 + c mod 64)]
      else if c < 65536 then
        (if 55296 \<le> c \<and> c < 57344 then None
         else Some [char_of (224 + c div 4096), char_of (128 + c div 64 mod 64),
                    char_of (128 + c mod 64)])
      else if c < 1114112 then
        Some [char_of (240 + c div 262144), char_of (128 + c div 4096 mod 64),
              char_of (128 + c div 64 mod 64), char_of (128 + c mod 64)]
      else None)"

fun utf8_encode :: "pystr \<Rightarrow> exn + bytes" where
  "utf8_encode [] = Inr []"
| "utf8_encode (c # t) =
     (case encode_char c of
        None \<Rightarrow> Inl UnicodeEncodeError
      | Some bs \<Rightarrow> (case utf8_encode t of Inl e \<Rightarrow> Inl e | Inr r \<Rightarrow> Inr (bs @ r)))"

text \<open>
  \<open>bytes.decode("utf-8", errors="ignore")\<close>.  CPython's decoder reports an error span
  and the \<open>ignore\<close> handler skips exactly that span: one byte for an invalid start
  byte, the bytes read so far for an invalid continuation byte, and the whole rest for
  a sequence cut off by the end of the data.  There is no raising branch.
\<close>

definition is_cont :: "nat \<Rightarrow> bool" where
  "is_cont b \<longleftrightarrow> 128 \<le> b \<and> b < 192"

fun utf8_decode_ignore :: "bytes \<Rightarrow> pystr" where
  "utf8_decode_ignore [] = []"
| "utf8_decode_ignore (x0 # r0) =
     (let b0 = (of_char x0 :: nat) in
      if b0 < 128 then b0 # utf8_decode_ignore r0
      else if b0 < 194 then utf8_decode_ignore r0
      else if b0 < 224 then
        (case r0 of
           [] \<Rightarrow> []
         | x1 # r1 \<Rightarrow>
             (let b1 = (of_char x1 :: nat) in
              if is_cont b1 then ((b0 - 192) * 64 + (b1 - 128)) # utf8_decode_ignore r1
              else utf8_decode_ignore r0))
      else if b0 < 240 then
        (case r0 of
           [] \<Rightarrow> []
         | x1 # r1 \<Rightarrow>
             (let b1 = (of_char x1 :: nat) in
              if \<not> is_cont b1 \<or> (b0 = 224 \<and> b1 < 160) \<or> (b0 = 237 \<and> 160 \<le> b1)
              then utf8_decode_ignore r0
              else
                (case r1 of
                   [] \<Rightarrow> []
                 | x2 # r2 \<Rightarrow>
                     (let b2 = (of_char x2 :: nat) in
                      if is_cont b2
                      then ((b0 - 224) * 4096 + (b1 - 128) * 64 + (b2 - 128))
                             # utf8_decode_ignore r2
                      else utf8_decode_ignore r1))))
      else if b0 < 245 then
        (case r0 of
           [] \<Rightarrow> []
         | x1 # r1 \<Rightarrow>
             (let b1 = (of_char x1 :: nat) in
              if \<not> is_cont b1 \<or> (b0 = 240 \<and> b1 < 144) \<or> (b0 = 244 \<and> 144 \<le> b1)
              then utf8_decode_ignore r0
              else
                (case r1 of
                   [] \<Rightarrow> []
                 | x2 # r2 \<Rightarrow>
                     (let b2 = (of_char x2 :: nat) in
                      if \<not> is_cont b2 then utf8_decode_ignore r1
                      else
                        (case r2 of
                           [] \<Rightarrow> []
                         | x3 # r3 \<Rightarrow>
                             (let b3 = (of_char x3 :: nat) in
                              if is_cont b3
                              then ((b0 - 240) * 262144 + (b1 - 128) * 4096
                                      + (b2 - 128) * 64 + (b3 - 128))
                                     # utf8_decode_ignore r3
                              else utf8_decode_ignore r2))))))
      else utf8_decode_ignore r0)"

declare utf8_decode_ignore.simps [simp del]

section \<open>The server (server.py)\<close>

definition MSG_PREFIX :: pystr where "MSG_PREFIX = ascii ''MSG:''"
definition NAME_PREFIX :: pystr where "NAME_PREFIX = ascii ''NAME:''"
definition FROM_PREFIX :: pystr where "FROM_PREFIX = ascii ''FROM:''"
definition SYS_PREFIX :: pystr where "SYS_PREFIX = ascii ''SYS:''"

text \<open>
  A line handed to \<open>gui.log_message\<close>: a text, or a text ending in the formatted
  exception of an \<open>except Exception as e\<close> handler.
\<close>

datatype logline = Line pystr | LineExn string exn

text \<open>
  The fields of \<open>ChatServer\<close>.  The two dicts are association lists in insertion
  order.  \<open>gui_log\<close> collects the calls of \<open>gui.log_message\<close>, \<open>closed_sockets\<close> the
  sockets on which \<open>close()\<close> has been called, and \<open>send_calls\<close> the calls
  \<open>client_socket.send(message_bytes)\<close> in the order they were made.
\<close>

record server =
  input_sockets :: "sock list"
  output_sockets :: "sock list"
  exceptional_sockets :: "sock list"
  message_queues :: "(sock \<times> bytes list) list"
  client_names :: "(sock \<times> pystr) list"
  gui_log :: "logline list"
  closed_sockets :: "sock list"
  send_calls :: "(sock \<times> bytes) list"

text \<open>
  What the operating system answers during one call: \<open>str(sock.getpeername())\<close> of an
  open socket, and whether \<open>sock.close()\<close> and \<open>sock.send(data)\<close> raise.
\<close>

record network =
  peer_name :: "sock \<Rightarrow> exn + pystr"
  close_result :: "sock \<Rightarrow> exn option"
  send_result :: "sock \<Rightarrow> bytes \<Rightarrow> exn option"

text \<open>\<open>_initialize_connection_management\<close>; socket 0 is the listening socket.\<close>

definition server_socket :: sock where "server_socket = 0"

definition initial_server :: server where
  "initial_server =
     \<lparr>input_sockets = [server_socket], output_sockets = [], exceptional_sockets = [],
      message_queues = [], client_names = [], gui_log = [], closed_sockets = [],
      send_calls = []\<rparr>"

definition log_message :: "server \<Rightarrow> logline \<Rightarrow> server" where
  "log_message s l = s\<lparr>gui_log := gui_log s @ [l]\<rparr>"

text \<open>
  \<open>getpeername()\<close> of a socket object that has been closed raises \<open>OSError\<close> (bad file
  descriptor); otherwise the operating system answers.
\<close>

definition getpeername :: "network \<Rightarrow> server \<Rightarrow> sock \<Rightarrow> exn + pystr" where
  "getpeername N s c =
     (if c \<in> set (closed_sockets s) then Inl (OSError ''[Errno 9] Bad file descriptor'')
      else peer_name N c)"

text \<open>
  Every method returns the server after the call together with the exception that
  left the method, if any: what a method changed before it raised stays changed.
\<close>

type_synonym outcome = "server \<times> exn option"

text \<open>\<open>_accept_new_client\<close>, given what \<open>accept()\<close> (and \<open>setblocking\<close>) did.\<close>

datatype accept_result = Accepted sock pystr | AcceptRaised exn

fun accept_new_client :: "server \<Rightarrow> accept_result \<Rightarrow> server" where
  "accept_new_client s (Accepted c addr) =
     log_message
       (s\<lparr>input_sockets := input_sockets s @ [c],
          output_sockets := output_sockets s @ [c],
          message_queues := AList.update c [] (message_queues s)\<rparr>)
       (Line (ascii ''New connection from '' @ addr))"
| "accept_new_client s (AcceptRaised e) =
     log_message s (LineExn ''Failed to accept connection: '' e)"

text \<open>
  \<open>_broadcast_message\<close>: the loop over \<open>list(self.message_queues.keys())\<close>; a key
  missing from the dict is the \<open>except\<close> branch.  The encoding happens before the
  loop and outside its \<open>try\<close>.
\<close>

definition enqueue :: "bytes \<Rightarrow> sock \<Rightarrow> (sock \<times> bytes list) list \<Rightarrow> (sock \<times> bytes list) list" where
  "enqueue b c mq =
     (case map_of mq c of Some q \<Rightarrow> AList.update c (q @ [b]) mq | None \<Rightarrow> mq)"

definition broadcast_message :: "server \<Rightarrow> pystr \<Rightarrow> outcome" where
  "broadcast_message s message =
     (case utf8_encode message of
        Inl e \<Rightarrow> (s, Some e)
      | Inr message_bytes \<Rightarrow>
          (s\<lparr>message_queues :=
                fold (enqueue message_bytes) (map fst (message_queues s)) (message_queues s)\<rparr>,
           None))"

text \<open>\<open>_handle_name_registration\<close>.\<close>

definition handle_name_registration :: "network \<Rightarrow> server \<Rightarrow> sock \<Rightarrow> pystr \<Rightarrow> outcome" where
  "handle_name_registration N s c message_text =
     (if startswith message_text NAME_PREFIX then
        (let username = strip (drop (length NAME_PREFIX) message_text) in
         case (if username = [] then getpeername N s c else Inr username) of
           Inl e \<Rightarrow> (s, Some e)
         | Inr username \<Rightarrow>
             (let s1 = s\<lparr>client_names := AList.update c username (client_names s)\<rparr>;
                  join_message = SYS_PREFIX @ username @ ascii '' joined''
              in broadcast_message (log_message s1 (Line join_message)) join_message))
      else (s, None))"

text \<open>
  \<open>_handle_chat_message\<close>.  The default of \<open>client_names.get\<close> is an argument, so
  \<open>getpeername()\<close> is called on every chat message, named sender or not.
\<close>

definition handle_chat_message :: "network \<Rightarrow> server \<Rightarrow> sock \<Rightarrow> pystr \<Rightarrow> outcome" where
  "handle_chat_message N s c message_text =
     (if startswith message_text MSG_PREFIX then
        (let message_content = strip (drop (length MSG_PREFIX) message_text) in
         case getpeername N s c of
           Inl e \<Rightarrow> (s, Some e)
         | Inr addr \<Rightarrow>
             (let username = (case map_of (client_names s) c of Some n \<Rightarrow> n | None \<Rightarrow> addr);
                  relay_message = FROM_PREFIX @ username @ ascii '':'' @ message_content
              in broadcast_message
                   (log_message s (Line (username @ ascii '': '' @ message_content)))
                   relay_message))
      else (s, None))"

text \<open>\<open>_process_client_message\<close>.\<close>

definition process_client_message :: "network \<Rightarrow> server \<Rightarrow> sock \<Rightarrow> pystr \<Rightarrow> outcome" where
  "process_client_message N s c message_text =
     (if map_of (client_names s) c = None
      then handle_name_registration N s c message_text
      else handle_chat_message N s c message_text)"

text \<open>
  \<open>_cleanup_client_socket\<close>.  \<open>close()\<close> marks the socket object closed before the
  operating system is asked, so the socket is closed also when \<open>close()\<close> raises; the
  two \<open>pop\<close> calls after it are then skipped.
\<close>

definition cleanup_client_socket :: "network \<Rightarrow> server \<Rightarrow> sock \<Rightarrow> server" where
  "cleanup_client_socket N s c =
     (let s1 = s\<lparr>input_sockets :=
                   (if c \<in> set (input_sockets s) then remove1 c (input_sockets s)
                    else input_sockets s),
                 output_sockets :=
                   (if c \<in> set (output_sockets s) then remove1 c (output_sockets s)
                    else output_sockets s),
                 closed_sockets := List.insert c (closed_sockets s)\<rparr>
      in case close_result N c of
           Some e \<Rightarrow> log_message s1 (LineExn ''Error cleaning up client socket: '' e)
         | None \<Rightarrow>
             s1\<lparr>message_queues := AList.delete c (message_queues s1),
                client_names := AList.delete c (client_names s1)\<rparr>)"

text \<open>
  \<open>_handle_client_disconnection\<close>.  The log line is built with \<open>getpeername()\<close>
  after the name has been popped; \<open>if username:\<close> is false for \<open>None\<close> and for the
  empty string.
\<close>

definition handle_client_disconnection :: "network \<Rightarrow> server \<Rightarrow> sock \<Rightarrow> outcome" where
  "handle_client_disconnection N s c =
     (let username = map_of (client_names s) c;
          s1 = s\<lparr>client_names := AList.delete c (client_names s)\<rparr>
      in case getpeername N s1 c of
           Inl e \<Rightarrow> (s1, Some e)
         | Inr addr \<Rightarrow>
             (let s2 = log_message s1 (Line (ascii ''Client disconnected: '' @ addr));
                  s3 = cleanup_client_socket N s2 c
              in case username of
                   None \<Rightarrow> (s3, None)
                 | Some u \<Rightarrow>
                     if u = [] then (s3, None)
                     else
                       (let leave_message = SYS_PREFIX @ u @ ascii '' left''
                        in broadcast_message (log_message s3 (Line leave_message))
                             leave_message)))"

text \<open>
  \<open>_handle_client_data\<close>, given what \<open>recv\<close> did.  An exception anywhere in the
  \<open>try\<close> block is logged and followed by a second disconnection call, whose own
  exception leaves the method.
\<close>

datatype recv_result = Received bytes | RecvRaised exn

fun handle_client_data :: "network \<Rightarrow> server \<Rightarrow> sock \<Rightarrow> recv_result \<Rightarrow> outcome" where
  "handle_client_data N s c (RecvRaised e) =
     handle_client_disconnection N
       (log_message s (LineExn ''Error handling client data: '' e)) c"
| "handle_client_data N s c (Received received_data) =
     (case (if received_data \<noteq> []
            then process_client_message N s c (strip (utf8_decode_ignore received_data))
            else handle_client_disconnection N s c) of
        (s1, None) \<Rightarrow> (s1, None)
      | (s1, Some e) \<Rightarrow>
          handle_client_disconnection N
            (log_message s1 (LineExn ''Error handling client data: '' e)) c)"

text \<open>
  \<open>_handle_writable_sockets\<close>: the head of the queue is popped, then sent; a failed
  send puts the socket on the exceptional list.
\<close>

definition write_next :: "network \<Rightarrow> server \<Rightarrow> sock \<Rightarrow> server" where
  "write_next N s c =
     (case map_of (message_queues s) c of
        Some (message_bytes # q) \<Rightarrow>
          (let s1 = s\<lparr>message_queues := AList.update c q (message_queues s),
                      send_calls := send_calls s @ [(c, message_bytes)]\<rparr>
           in case send_result N c message_bytes of
                None \<Rightarrow> s1
              | Some e \<Rightarrow> s1\<lparr>exceptional_sockets := exceptional_sockets s1 @ [c]\<rparr>)
      | _ \<Rightarrow> s)"

fun handle_writable_sockets :: "network \<Rightarrow> server \<Rightarrow> sock list \<Rightarrow> server" where
  "handle_writable_sockets N s [] = s"
| "handle_writable_sockets N s (c # cs) = handle_writable_sockets N (write_next N s c) cs"

text \<open>
  \<open>_handle_exceptional_sockets\<close>: an exception of the disconnection call leaves the
  loop and the method; the sockets after it are not handled.
\<close>

fun handle_exceptional_sockets :: "network \<Rightarrow> server \<Rightarrow> sock list \<Rightarrow> outcome" where
  "handle_exceptional_sockets N s [] = (s, None)"
| "handle_exceptional_sockets N s (c # cs) =
     (case handle_client_disconnection N s c of
        (s1, Some e) \<Rightarrow> (s1, Some e)
      | (s1, None) \<Rightarrow>
          handle_exceptional_sockets N
            (s1\<lparr>exceptional_sockets :=
                  (if c \<in> set (exceptional_sockets s1) then remove1 c (exceptional_sockets s1)
                   else exceptional_sockets s1)\<rparr>)
            cs)"

section \<open>The client (client.py)\<close>

definition RECONNECT_BASE_DELAY :: int where "RECONNECT_BASE_DELAY = 1"
definition RECONNECT_MAX_DELAY :: int where "RECONNECT_MAX_DELAY = 16"

text \<open>\<open>str(n)\<close> of an integer, as an f-string formats it.\<close>

function decimal :: "nat \<Rightarrow> pystr" where
  "decimal n = (if n < 10 then [48 + n] else decimal (n div 10) @ [48 + n mod 10])"
  by pat_completeness auto
termination
  by (relation "measure id") auto

declare decimal.simps [simp del]

definition str_int :: "int \<Rightarrow> pystr" where
  "str_int i = (if i < 0 then 45 # decimal (nat (- i)) else decimal (nat i))"

text \<open>
  What the display receives through \<open>wx.CallAfter\<close>: \<open>_append_system_message\<close> (with
  a text, or with a text ending in a formatted exception), \<open>_append_own_message\<close> and
  \<open>_append_other_message\<close>.
\<close>

datatype event =
  SystemMessage pystr
| SystemMessageExn string exn
| OwnMessage pystr
| OtherMessage pystr pystr

text \<open>
  What the client does to the outside, in order: an event for the display, a
  \<open>_sleep_interruptible\<close> of whole seconds or of the poll interval, a \<open>print\<close>.
\<close>

datatype action = Notice event | Sleep int | SleepPoll | Print string exn

record client =
  client_socket :: "sock option"
  inputs :: "sock list"
  outputs :: "sock list"
  username :: pystr
  input_text :: pystr
  send_calls_c :: "bytes list"
  trace :: "action list"

definition emit :: "client \<Rightarrow> action \<Rightarrow> client" where
  "emit cl a = cl\<lparr>trace := trace cl @ [a]\<rparr>"

text \<open>
  \<open>send_message\<close>, given the content of the input field (in the record) and whether
  \<open>send\<close> raises.  A socket object is always true in \<open>if self.client_socket:\<close>.
\<close>

definition send_message :: "client \<Rightarrow> exn option \<Rightarrow> client" where
  "send_message cl send_raises =
     (let message_text = strip (input_text cl) in
      if message_text = [] then cl
      else
        (let cl1 = cl\<lparr>input_text := []\<rparr> in
         case client_socket cl1 of
           Some sk \<Rightarrow>
             (case utf8_encode (MSG_PREFIX @ message_text) of
                Inl e \<Rightarrow> emit cl1 (Notice (SystemMessageExn ''Failed to send message: '' e))
              | Inr message_bytes \<Rightarrow>
                  (let cl2 = cl1\<lparr>send_calls_c := send_calls_c cl1 @ [message_bytes]\<rparr> in
                   case send_raises of
                     None \<Rightarrow> cl2
                   | Some e \<Rightarrow>
                       emit cl2 (Notice (SystemMessageExn ''Failed to send message: '' e))))
         | None \<Rightarrow> emit cl1 (Notice (SystemMessage (ascii ''Not connected to server'')))))"

text \<open>\<open>_send_username_handshake\<close>: its own \<open>except\<close> prints and returns normally.\<close>

definition send_username_handshake :: "client \<Rightarrow> exn option \<Rightarrow> client" where
  "send_username_handshake cl send_raises =
     (case utf8_encode (NAME_PREFIX @ username cl) of
        Inl e \<Rightarrow> emit cl (Print ''Failed to send username: '' e)
      | Inr username_bytes \<Rightarrow>
          (let cl1 = cl\<lparr>send_calls_c := send_calls_c cl @ [username_bytes]\<rparr> in
           case send_raises of
             None \<Rightarrow> cl1
           | Some e \<Rightarrow> emit cl1 (Print ''Failed to send username: '' e)))"

text \<open>\<open>_cleanup_connection\<close>: whatever \<open>close()\<close> does, the socket is forgotten.\<close>

definition cleanup_connection :: "client \<Rightarrow> client" where
  "cleanup_connection cl = cl\<lparr>client_socket := None\<rparr>"

text \<open>
  What the outside does during one turn of the network loop: the socket object
  created, whether creating and connecting it raises, whether the \<open>send\<close> of the
  handshake raises, and what \<open>select\<close> and \<open>recv\<close> give (\<open>None\<close>: nothing readable).
\<close>

record io =
  new_socket :: sock
  connect_raises :: "exn option"
  handshake_raises :: "exn option"
  readable :: "recv_result option"

text \<open>\<open>_attempt_connection\<close>; the result is the client and the returned delay.\<close>

definition attempt_connection :: "client \<Rightarrow> int \<Rightarrow> io \<Rightarrow> client \<times> int" where
  "attempt_connection cl current_delay x =
     (let cl1 = cl\<lparr>client_socket := Some (new_socket x)\<rparr> in
      case connect_raises x of
        None \<Rightarrow>
          (let cl2 = cl1\<lparr>inputs := [new_socket x], outputs := []\<rparr>;
               cl3 = send_username_handshake cl2 (handshake_raises x)
           in (emit cl3 (Notice (SystemMessage (ascii ''Connected to chat server''))),
               RECONNECT_BASE_DELAY))
      | Some e \<Rightarrow>
          (let cl2 = emit cl1 (Notice (SystemMessage
                       (ascii ''Connection failed, retrying in '' @ str_int current_delay
                          @ ascii ''s'')));
               cl3 = cleanup_connection cl2;
               cl4 = emit cl3 (Sleep current_delay)
           in (cl4, min RECONNECT_MAX_DELAY (current_delay * 2))))"

text \<open>\<open>str.split(sep, 1)\<close> for a non-empty separator: one or two pieces.\<close>

fun split1 :: "pystr \<Rightarrow> pystr \<Rightarrow> pystr list" where
  "split1 sep [] = [[]]"
| "split1 sep (x # xs) =
     (if startswith (x # xs) sep then [[], drop (length sep) (x # xs)]
      else (case split1 sep xs of
              [] \<Rightarrow> []
            | a # rest \<Rightarrow> (x # a) # rest))"

text \<open>
  \<open>_handle_incoming_message\<close>.  Unpacking a list that has not exactly two elements
  raises \<open>ValueError\<close>, which the \<open>except\<close> turns into a system message.
\<close>

definition handle_incoming_message :: "client \<Rightarrow> pystr \<Rightarrow> client" where
  "handle_incoming_message cl raw =
     (let message_text = strip raw in
      if startswith message_text SYS_PREFIX then
        emit cl (Notice (SystemMessage (strip (drop (length SYS_PREFIX) message_text))))
      else if startswith message_text FROM_PREFIX then
        (case (case split1 FROM_PREFIX message_text of
                 [u, rest] \<Rightarrow>
                   (case split1 (ascii '':'') rest of
                      [sender_name, message_content] \<Rightarrow>
                        Inr (strip sender_name, strip message_content)
                    | _ \<Rightarrow> Inl ValueError)
               | _ \<Rightarrow> Inl ValueError) of
           Inr (sender_name, message_content) \<Rightarrow>
             if sender_name = username cl then emit cl (Notice (OwnMessage message_content))
             else emit cl (Notice (OtherMessage sender_name message_content))
         | Inl e \<Rightarrow> emit cl (Notice (SystemMessage message_text)))
      else emit cl (Notice (SystemMessage message_text)))"

text \<open>\<open>_handle_disconnection\<close> and \<open>_receive_messages\<close>.\<close>

definition handle_disconnection :: "client \<Rightarrow> client" where
  "handle_disconnection cl =
     emit (cleanup_connection cl)
       (Notice (SystemMessage (ascii ''Disconnected from server; reconnecting...'')))"

definition receive_messages :: "client \<Rightarrow> recv_result option \<Rightarrow> client" where
  "receive_messages cl r =
     (case r of
        None \<Rightarrow> cl
      | Some (RecvRaised e) \<Rightarrow> handle_disconnection cl
      | Some (Received received_data) \<Rightarrow>
          if received_data \<noteq> []
          then handle_incoming_message cl (utf8_decode_ignore received_data)
          else handle_disconnection cl)"

text \<open>
  \<open>_network_loop\<close>: one turn per element of the list; the list ends where
  \<open>stop_event\<close> is set.  The delay is the local variable \<open>reconnect_delay\<close>.  The
  methods called in the body catch their own exceptions, so the \<open>except\<close> branch of
  the loop has no case here.
\<close>

fun network_loop :: "client \<Rightarrow> int \<Rightarrow> io list \<Rightarrow> client \<times> int" where
  "network_loop cl reconnect_delay [] = (cl, reconnect_delay)"
| "network_loop cl reconnect_delay (x # xs) =
     (if client_socket cl = None then
        (case attempt_connection cl reconnect_delay x of
           (cl1, d) \<Rightarrow> network_loop cl1 d xs)
      else network_loop (emit (receive_messages cl (readable x)) SleepPoll) reconnect_delay xs)"

text \<open>The client after \<open>__init__\<close>, with the name the user entered.\<close>

definition initial_client :: "pystr \<Rightarrow> client" where
  "initial_client name =
     \<lparr>client_socket = None, inputs = [], outputs = [], username = name, input_text = [],
      send_calls_c = [], trace = []\<rparr>"

section \<open>Observations and example runs\<close>

text \<open>The byte strings passed to \<open>send\<close> on socket \<open>c\<close>, in the order of the calls.\<close>

definition sent_to :: "sock \<Rightarrow> server \<Rightarrow> bytes list" where
  "sent_to c s = map snd (filter (\<lambda>p. fst p = c) (send_calls s))"

text \<open>A network on which no call fails.\<close>

definition quiet_network :: network where
  "quiet_network =
     \<lparr>peer_name = (\<lambda>c. Inr (ascii ''('127.0.0.1', 50000)'')),
      close_result = (\<lambda>c. None),
      send_result = (\<lambda>c b. None)\<rparr>"

text \<open>
  Two clients are accepted (sockets 1 and 2); then socket 1 sends \<open>NAME:alice\<close>; then
  socket 2 sends \<open>NAME:alice\<close> as well; or else socket 1 is disconnected.
\<close>

definition two_clients :: server where
  "two_clients =
     accept_new_client
       (accept_new_client initial_server (Accepted 1 (ascii ''('127.0.0.1', 50001)'')))
       (Accepted 2 (ascii ''('127.0.0.1', 50002)''))"

definition alice_joined :: server where
  "alice_joined = fst (handle_client_data quiet_network two_clients 1 (Received ''NAME:alice''))"

definition alice_left :: server where
  "alice_left = fst (handle_client_disconnection quiet_network alice_joined 1)"

text \<open>
  What one failed connection attempt with delay \<open>d\<close> does to the outside: the notice
  with that delay, then the sleep of that delay.
\<close>

definition backoff_actions :: "int \<Rightarrow> action list" where
  "backoff_actions d =
     [Notice (SystemMessage (ascii ''Connection failed, retrying in '' @ str_int d @ ascii ''s'')),
      Sleep d]"

text \<open>
  A turn of the loop in which the connection stays (nothing readable, or data), and one
  in which the peer is gone (\<open>recv\<close> gives no bytes or raises).
\<close>

definition stays_connected :: "io \<Rightarrow> bool" where
  "stays_connected x =
     (case readable x of
        None \<Rightarrow> True
      | Some (Received received_data) \<Rightarrow> received_data \<noteq> []
      | Some (RecvRaised e) \<Rightarrow> False)"

definition peer_closes :: "io \<Rightarrow> bool" where
  "peer_closes x =
     (case readable x of
        None \<Rightarrow> False
      | Some (Received received_data) \<Rightarrow> received_data = []
      | Some (RecvRaised e) \<Rightarrow> True)"

text \<open>
  Turns of the network loop: the server refuses; the server accepts; the server accepts
  but the handshake cannot be sent; nothing to read; the server has closed.
\<close>

definition refused :: io where
  "refused =
     \<lparr>new_socket = 3, connect_raises = Some (OSError ''[Errno 111] Connection refused''),
      handshake_raises = None, readable = None\<rparr>"

definition accepted :: io where
  "accepted = \<lparr>new_socket = 4, connect_raises = None, handshake_raises = None, readable = None\<rparr>"

definition handshake_broken :: io where
  "handshake_broken =
     \<lparr>new_socket = 5, connect_raises = None,
      handshake_raises = Some (OSError ''[Errno 32] Broken pipe''), readable = None\<rparr>"

definition idle :: io where
  "idle = \<lparr>new_socket = 6, connect_raises = None, handshake_raises = None, readable = None\<rparr>"

definition server_gone :: io where
  "server_gone =
     \<lparr>new_socket = 7, connect_raises = None, handshake_raises = None,
      readable = Some (Received [])\<rparr>"

text \<open>The client of user alice after start, and after its first successful connection.\<close>

definition alice :: client where
  "alice = initial_client (ascii ''alice'')"

definition alice_online :: client where
  "alice_online = fst (attempt_connection alice 1 accepted)"

text \<open>
  A code point that a Python \<open>str\<close> can hold and \<open>encode\<close> accepts: below \<open>0x110000\<close>
  and no surrogate.
\<close>

definition valid_char :: "nat \<Rightarrow> bool" where
  "valid_char c \<longleftrightarrow> c < 1114112 \<and> \<not> (55296 \<le> c \<and> c < 57344)"

text \<open>
  The decoder's tests of the second byte of a three-byte and of a four-byte sequence,
  under names, so that proofs can keep them folded.
\<close>

definition bad3 :: "nat \<Rightarrow> nat \<Rightarrow> bool" where
  "bad3 b0 b1 \<longleftrightarrow> \<not> is_cont b1 \<or> (b0 = 224 \<and> b1 < 160) \<or> (b0 = 237 \<and> 160 \<le> b1)"

definition bad4 :: "nat \<Rightarrow> nat \<Rightarrow> bool" where
  "bad4 b0 b1 \<longleftrightarrow> \<not> is_cont b1 \<or> (b0 = 240 \<and> b1 < 144) \<or> (b0 = 244 \<and> 144 \<le> b1)"

text \<open>
  Bytes that the decoder drops.  A byte from \<open>0x80\<close> on that cannot start a sequence:
  a continuation byte, \<open>0xC0\<close>, \<open>0xC1\<close>, or \<open>0xF5\<close> and above.
\<close>

definition invalid_start :: "char \<Rightarrow> bool" where
  "invalid_start x \<longleftrightarrow>
     128 \<le> (of_char x :: nat) \<and> ((of_char x :: nat) < 194 \<or> 245 \<le> (of_char x :: nat))"

text \<open>
  A sequence that is cut off: a lead byte with the continuation bytes that are valid
  after it, but fewer of them than the lead byte announces.
\<close>

definition cut_off :: "bytes \<Rightarrow> bool" where
  "cut_off p =
     (case map of_char p of
        [b0] \<Rightarrow> 194 \<le> b0 \<and> b0 < (245::nat)
      | [b0, b1] \<Rightarrow>
          (224 \<le> b0 \<and> b0 < 240 \<and> \<not> bad3 b0 b1) \<or> (240 \<le> b0 \<and> b0 < 245 \<and> \<not> bad4 b0 b1)
      | [b0, b1, b2] \<Rightarrow> 240 \<le> b0 \<and> b0 < 245 \<and> \<not> bad4 b0 b1 \<and> is_cont b2
      | _ \<Rightarrow> False)"

section \<open>Evaluation and helper lemmas\<close>

lemmas server_defs =
  process_client_message_def handle_name_registration_def handle_chat_message_def
  broadcast_message_def enqueue_def log_message_def getpeername_def
  handle_client_disconnection_def cleanup_client_socket_def write_next_def
  initial_server_def server_socket_def sent_to_def
  MSG_PREFIX_def NAME_PREFIX_def FROM_PREFIX_def SYS_PREFIX_def

lemmas py_defs =
  ascii_def strip_def isspace_def startswith_def encode_char_def char_of_def
  bit_Suc_0_iff is_cont_def Let_def utf8_decode_ignore.simps

lemmas utf_defs = invalid_start_def cut_off_def bad3_def bad4_def valid_char_def

lemmas example_defs = quiet_network_def two_clients_def alice_joined_def alice_left_def

lemmas client_defs =
  send_message_def send_username_handshake_def cleanup_connection_def
  attempt_connection_def handle_incoming_message_def handle_disconnection_def
  receive_messages_def initial_client_def emit_def RECONNECT_BASE_DELAY_def
  RECONNECT_MAX_DELAY_def backoff_actions_def stays_connected_def peer_closes_def
  refused_def accepted_def handshake_broken_def idle_def server_gone_def alice_def
  alice_online_def MSG_PREFIX_def NAME_PREFIX_def FROM_PREFIX_def SYS_PREFIX_def

lemma startswith_MSG_not_NAME: "startswith t MSG_PREFIX \<Longrightarrow> \<not> startswith t NAME_PREFIX"
  by (cases t) (auto simp: startswith_def MSG_PREFIX_def NAME_PREFIX_def ascii_def)

lemma startswith_NAME_not_MSG: "startswith t NAME_PREFIX \<Longrightarrow> \<not> startswith t MSG_PREFIX"
  by (cases t) (auto simp: startswith_def MSG_PREFIX_def NAME_PREFIX_def ascii_def)

lemma startswith_append: "startswith (p @ t) p"
  by (simp add: startswith_def)

subsection \<open>Broadcasting\<close>

lemma keys_enqueue: "map fst (enqueue b c mq) = map fst mq"
  by (auto simp: enqueue_def update_keys map_of_eq_None_iff split: option.splits)

lemma map_of_enqueue:
  "map_of (enqueue b c mq) c' =
     (if c' = c then map_option (\<lambda>q. q @ [b]) (map_of mq c) else map_of mq c')"
  by (auto simp: enqueue_def update_conv' split: option.splits)

lemma keys_fold_enqueue: "map fst (fold (enqueue b) ks mq) = map fst mq"
  by (induction ks arbitrary: mq) (auto simp: keys_enqueue)

lemma map_of_fold_enqueue:
  "distinct ks \<Longrightarrow>
   map_of (fold (enqueue b) ks mq) c =
     (if c \<in> set ks then map_option (\<lambda>q. q @ [b]) (map_of mq c) else map_of mq c)"
  by (induction ks arbitrary: mq) (auto simp: map_of_enqueue)

lemma broadcast_message_eq:
  assumes "utf8_encode m = Inr b"
  shows "broadcast_message s m =
           (s\<lparr>message_queues :=
                 fold (enqueue b) (map fst (message_queues s)) (message_queues s)\<rparr>, None)"
  using assms by (simp add: broadcast_message_def)

lemma map_of_broadcast:
  assumes "distinct (map fst (message_queues s))" and "utf8_encode m = Inr b"
  shows "map_of (message_queues (fst (broadcast_message s m))) c =
           map_option (\<lambda>q. q @ [b]) (map_of (message_queues s) c)"
proof (cases "c \<in> fst ` set (message_queues s)")
  case True
  then show ?thesis
    using assms by (simp add: broadcast_message_eq map_of_fold_enqueue)
next
  case False
  then have "map_of (message_queues s) c = None"
    by (simp add: map_of_eq_None_iff)
  with False show ?thesis
    using assms by (simp add: broadcast_message_eq map_of_fold_enqueue)
qed

lemma keys_broadcast:
  "map fst (message_queues (fst (broadcast_message s m))) = map fst (message_queues s)"
  by (simp add: broadcast_message_def keys_fold_enqueue split: sum.splits)

lemma broadcast_send_calls: "send_calls (fst (broadcast_message s m)) = send_calls s"
  by (simp add: broadcast_message_def split: sum.splits)

subsection \<open>Writing\<close>

lemma write_next_other:
  "c' \<noteq> c \<Longrightarrow>
   sent_to c (write_next N s c') = sent_to c s \<and>
   map_of (message_queues (write_next N s c')) c = map_of (message_queues s) c"
  by (auto simp: write_next_def sent_to_def update_conv' Let_def
      split: option.splits list.splits)

lemma write_next_same:
  "map_of (message_queues s) c = Some q \<Longrightarrow>
   sent_to c (write_next N s c) = sent_to c s @ take 1 q \<and>
   map_of (message_queues (write_next N s c)) c = Some (drop 1 q)"
  by (auto simp: write_next_def sent_to_def update_conv' Let_def
      split: option.splits list.splits)

lemma writable_drains_in_order:
  "map_of (message_queues s) c = Some q \<Longrightarrow>
   sent_to c (handle_writable_sockets N s cs) = sent_to c s @ take (count_list cs c) q \<and>
   map_of (message_queues (handle_writable_sockets N s cs)) c
     = Some (drop (count_list cs c) q)"
proof (induction cs arbitrary: s q)
  case Nil
  then show ?case by simp
next
  case (Cons c' cs)
  show ?case
  proof (cases "c' = c")
    case True
    have step: "sent_to c (write_next N s c) = sent_to c s @ take 1 q"
      "map_of (message_queues (write_next N s c)) c = Some (drop 1 q)"
      using write_next_same [OF Cons.prems] by simp_all
    show ?thesis
      using Cons.IH [OF step(2)] step(1) True
      by (cases q) simp_all
  next
    case False
    have step: "sent_to c (write_next N s c') = sent_to c s"
      "map_of (message_queues (write_next N s c')) c = Some q"
      using write_next_other [OF False] Cons.prems by simp_all
    show ?thesis
      using Cons.IH [OF step(2)] step(1) False by simp
  qed
qed

subsection \<open>Disconnecting\<close>

lemma disconnection_closes:
  assumes "handle_client_disconnection N s c = (s', None)"
  shows "c \<in> set (closed_sockets s') \<and> map_of (client_names s') c = None"
  using assms
  by (auto simp: handle_client_disconnection_def cleanup_client_socket_def getpeername_def
      Let_def log_message_def broadcast_message_def delete_conv'
      split: sum.splits option.splits if_splits)

lemma delete_absent: "map_of al k = None \<Longrightarrow> AList.delete k al = al"
  by (simp add: map_of_eq_None_iff)

text \<open>
  After a disconnection call that returned, every further call for the same socket
  raises at \<open>getpeername()\<close> and leaves the server as it is, whatever the network does.
\<close>

lemma disconnection_again_raises:
  assumes "handle_client_disconnection N s c = (s', None)"
  shows "handle_client_disconnection N' s' c
           = (s', Some (OSError ''[Errno 9] Bad file descriptor''))"
  using disconnection_closes [OF assms]
  by (simp add: handle_client_disconnection_def getpeername_def delete_absent)

subsection \<open>The client\<close>

lemma min_double: "min (16::int) (min 16 (2 ^ j) * 2) = min 16 (2 ^ Suc j)"
  by (cases "(2::int) ^ j \<le> 16") auto

lemma failures_from:
  assumes "client_socket cl = None" and "\<forall>x \<in> set xs. connect_raises x \<noteq> None"
  shows "network_loop cl (min 16 (2 ^ j)) xs
           = (cl\<lparr>trace := trace cl @ concat (map (\<lambda>k. backoff_actions (min 16 (2 ^ k)))
                                                  [j ..< j + length xs])\<rparr>,
              min 16 (2 ^ (j + length xs)))"
  using assms
proof (induction xs arbitrary: cl j)
  case Nil
  then show ?case by simp
next
  case (Cons x xs)
  then obtain e where e: "connect_raises x = Some e" by auto
  let ?cl1 = "cl\<lparr>client_socket := None, trace := trace cl @ backoff_actions (min 16 (2 ^ j))\<rparr>"
  have step: "attempt_connection cl (min 16 (2 ^ j)) x = (?cl1, min 16 (2 ^ Suc j))"
    using e
    by (simp add: attempt_connection_def cleanup_connection_def emit_def backoff_actions_def
        Let_def RECONNECT_MAX_DELAY_def min_double del: power_Suc)
  have ih: "network_loop ?cl1 (min 16 (2 ^ Suc j)) xs
          = (?cl1\<lparr>trace := trace ?cl1 @ concat (map (\<lambda>k. backoff_actions (min 16 (2 ^ k)))
                                                  [Suc j ..< Suc j + length xs])\<rparr>,
              min 16 (2 ^ (Suc j + length xs)))"
    using Cons.prems by (intro Cons.IH) simp_all
  show ?case
    using Cons.prems(1) step ih
    by (simp add: upt_conv_Cons del: power_Suc upt_Suc)
qed

lemma network_loop_append:
  "network_loop cl d (xs @ ys) = (case network_loop cl d xs of (cl1, d1) \<Rightarrow> network_loop cl1 d1 ys)"
  by (induction cl d xs rule: network_loop.induct) (auto split: prod.splits)

lemma handle_incoming_message_socket:
  "client_socket (handle_incoming_message cl raw) = client_socket cl"
  by (simp add: handle_incoming_message_def emit_def Let_def
      split: list.splits sum.splits prod.splits)

lemma connected_polls:
  assumes "client_socket cl \<noteq> None" and "\<forall>x \<in> set xs. stays_connected x"
  shows "snd (network_loop cl d xs) = d \<and>
         client_socket (fst (network_loop cl d xs)) = client_socket cl"
  using assms
proof (induction xs arbitrary: cl)
  case Nil
  then show ?case by simp
next
  case (Cons x xs)
  let ?cl1 = "emit (receive_messages cl (readable x)) SleepPoll"
  have keep: "client_socket ?cl1 = client_socket cl"
    using Cons.prems(2)
    by (auto simp: stays_connected_def receive_messages_def emit_def
        handle_incoming_message_socket split: option.splits recv_result.splits)
  have "snd (network_loop ?cl1 d xs) = d \<and>
        client_socket (fst (network_loop ?cl1 d xs)) = client_socket ?cl1"
    using Cons.prems keep by (intro Cons.IH) simp_all
  then show ?case
    using Cons.prems(1) keep by auto
qed

lemma peer_close_step:
  assumes "client_socket cl \<noteq> None" and "peer_closes x"
  shows "snd (network_loop cl d [x]) = d \<and> client_socket (fst (network_loop cl d [x])) = None"
  using assms
  by (auto simp: peer_closes_def receive_messages_def handle_disconnection_def
      cleanup_connection_def emit_def split: option.splits recv_result.splits)

lemma connect_step:
  assumes "client_socket cl = None" and "connect_raises x = None"
  shows "snd (network_loop cl d [x]) = RECONNECT_BASE_DELAY \<and>
         client_socket (fst (network_loop cl d [x])) \<noteq> None"
  using assms
  by (auto simp: attempt_connection_def send_username_handshake_def emit_def Let_def
      split: option.splits sum.splits)

lemma decimal_digit: "n < 10 \<Longrightarrow> decimal n = [48 + n]"
  by (simp add: decimal.simps)

lemma decimal_step: "10 \<le> n \<Longrightarrow> decimal n = decimal (n div 10) @ [48 + n mod 10]"
  by (subst decimal.simps) simp





subsection \<open>UTF-8 and \<open>strip\<close>\<close>

lemma decode_ascii_byte:
  "(of_char x0 :: nat) < 128 \<Longrightarrow>
     utf8_decode_ignore (x0 # r0) = of_char x0 # utf8_decode_ignore r0"
  by (subst utf8_decode_ignore.simps) (auto simp: Let_def)

lemma decode_invalid_start:
  "128 \<le> (of_char x0 :: nat) \<Longrightarrow> (of_char x0 :: nat) < 194 \<or> 245 \<le> (of_char x0 :: nat) \<Longrightarrow>
     utf8_decode_ignore (x0 # r0) = utf8_decode_ignore r0"
  by (subst utf8_decode_ignore.simps) (auto simp: Let_def)

lemma decode_two:
  "194 \<le> (of_char x0 :: nat) \<Longrightarrow> (of_char x0 :: nat) < 224 \<Longrightarrow> is_cont (of_char x1) \<Longrightarrow>
     utf8_decode_ignore (x0 # x1 # r1)
       = ((of_char x0 - 192) * 64 + (of_char x1 - 128)) # utf8_decode_ignore r1"
  by (subst utf8_decode_ignore.simps) (auto simp: Let_def)

lemma decode_three:
  "224 \<le> (of_char x0 :: nat) \<Longrightarrow> (of_char x0 :: nat) < 240 \<Longrightarrow>
   is_cont (of_char x1) \<Longrightarrow> \<not> (of_char x0 = (224::nat) \<and> (of_char x1 :: nat) < 160) \<Longrightarrow>
   \<not> (of_char x0 = (237::nat) \<and> 160 \<le> (of_char x1 :: nat)) \<Longrightarrow> is_cont (of_char x2) \<Longrightarrow>
     utf8_decode_ignore (x0 # x1 # x2 # r2)
       = ((of_char x0 - 224) * 4096 + (of_char x1 - 128) * 64 + (of_char x2 - 128))
           # utf8_decode_ignore r2"
  by (subst utf8_decode_ignore.simps) (auto simp: Let_def)

lemma decode_four:
  "240 \<le> (of_char x0 :: nat) \<Longrightarrow> (of_char x0 :: nat) < 245 \<Longrightarrow>
   is_cont (of_char x1) \<Longrightarrow> \<not> (of_char x0 = (240::nat) \<and> (of_char x1 :: nat) < 144) \<Longrightarrow>
   \<not> (of_char x0 = (244::nat) \<and> 144 \<le> (of_char x1 :: nat)) \<Longrightarrow>
   is_cont (of_char x2) \<Longrightarrow> is_cont (of_char x3) \<Longrightarrow>
     utf8_decode_ignore (x0 # x1 # x2 # x3 # r3)
       = ((of_char x0 - 240) * 262144 + (of_char x1 - 128) * 4096 + (of_char x2 - 128) * 64
            + (of_char x3 - 128)) # utf8_decode_ignore r3"
  by (subst utf8_decode_ignore.simps) (auto simp: Let_def)


lemma byte_val: "n < 256 \<Longrightarrow> (of_char (char_of (n::nat)) :: nat) = n"
  by simp

lemma digits64:
  fixes c :: nat
  shows "c = c div 64 * 64 + c mod 64"
    and "c div 64 = c div 4096 * 64 + c div 64 mod 64"
    and "c div 4096 = c div 262144 * 64 + c div 4096 mod 64"
    and "c mod 64 < 64" and "c div 64 mod 64 < 64" and "c div 4096 mod 64 < 64"
proof -
  have a: "c div 4096 = c div 64 div 64"
    using div_mult2_eq [of c 64 64] by simp
  have b: "c div 262144 = c div 4096 div 64"
    using div_mult2_eq [of c 4096 64] by simp
  show "c = c div 64 * 64 + c mod 64" by simp
  show "c div 64 = c div 4096 * 64 + c div 64 mod 64" unfolding a by simp
  show "c div 4096 = c div 262144 * 64 + c div 4096 mod 64" unfolding b by simp
  show "c mod 64 < 64" "c div 64 mod 64 < 64" "c div 4096 mod 64 < 64" by simp_all
qed

lemma enc_dec_1:
  assumes "c < 128"
  shows "utf8_decode_ignore ([char_of c] @ r) = c # utf8_decode_ignore r"
  using assms by (simp add: decode_ascii_byte byte_val)

lemma enc_dec_2:
  assumes "128 \<le> c" and "c < 2048"
  shows "utf8_decode_ignore ([char_of (192 + c div 64), char_of (128 + c mod 64)] @ r)
           = c # utf8_decode_ignore r"
proof -
  note d = digits64 [of c]
  have b0: "(of_char (char_of (192 + c div 64)) :: nat) = 192 + c div 64"
    using assms d(1,4) by (intro byte_val) linarith
  have b1: "(of_char (char_of (128 + c mod 64)) :: nat) = 128 + c mod 64"
    using d(4) by (intro byte_val) linarith
  have v: "(192 + c div 64 - 192) * 64 + (128 + c mod 64 - 128) = c"
    by simp
  have r0: "194 \<le> 192 + c div 64" "192 + c div 64 < 224"
    using assms d(1,4) by linarith+
  show ?thesis
    using decode_two [of "char_of (192 + c div 64)" "char_of (128 + c mod 64)" r] r0 d(4)
    by (simp add: b0 b1 is_cont_def v)
qed


lemma enc_dec_3:
  assumes "2048 \<le> c" and "c < 65536" and "\<not> (55296 \<le> c \<and> c < 57344)"
  shows "utf8_decode_ignore ([char_of (224 + c div 4096), char_of (128 + c div 64 mod 64),
                              char_of (128 + c mod 64)] @ r)
           = c # utf8_decode_ignore r"
proof -
  note d = digits64 [of c]
  have b0: "(of_char (char_of (224 + c div 4096)) :: nat) = 224 + c div 4096"
    using assms d(1,2,4,5) by (intro byte_val) linarith
  have b1: "(of_char (char_of (128 + c div 64 mod 64)) :: nat) = 128 + c div 64 mod 64"
    using d(5) by (intro byte_val) linarith
  have b2: "(of_char (char_of (128 + c mod 64)) :: nat) = 128 + c mod 64"
    using d(4) by (intro byte_val) linarith
  have v: "c div 4096 * 4096 + c div 64 mod 64 * 64 + c mod 64 = c"
    using d(1,2) by linarith
  have r0: "224 + c div 4096 < 240"
    using assms d(1,2,4,5) by linarith
  have o: "\<not> (c div 4096 = 0 \<and> c div 64 mod 64 < 32)"
    using assms d(1,2,4,5) by linarith
  have g: "\<not> (c div 4096 = 13 \<and> 32 \<le> c div 64 mod 64)"
    using assms d(1,2,4,5) by linarith
  show ?thesis
    using decode_three [of "char_of (224 + c div 4096)" "char_of (128 + c div 64 mod 64)"
                           "char_of (128 + c mod 64)" r] r0 o g d(4,5)
    by (simp add: b0 b1 b2 is_cont_def v)
qed

lemma enc_dec_4:
  assumes "65536 \<le> c" and "c < 1114112"
  shows "utf8_decode_ignore ([char_of (240 + c div 262144), char_of (128 + c div 4096 mod 64),
                              char_of (128 + c div 64 mod 64), char_of (128 + c mod 64)] @ r)
           = c # utf8_decode_ignore r"
proof -
  note d = digits64 [of c]
  have b0: "(of_char (char_of (240 + c div 262144)) :: nat) = 240 + c div 262144"
    using assms d by (intro byte_val) linarith
  have b1: "(of_char (char_of (128 + c div 4096 mod 64)) :: nat) = 128 + c div 4096 mod 64"
    using d(6) by (intro byte_val) linarith
  have b2: "(of_char (char_of (128 + c div 64 mod 64)) :: nat) = 128 + c div 64 mod 64"
    using d(5) by (intro byte_val) linarith
  have b3: "(of_char (char_of (128 + c mod 64)) :: nat) = 128 + c mod 64"
    using d(4) by (intro byte_val) linarith
  have v: "c div 262144 * 262144 + c div 4096 mod 64 * 4096 + c div 64 mod 64 * 64 + c mod 64
             = c"
    using d(1,2,3) by linarith
  have r0: "240 + c div 262144 < 245"
    using assms d by linarith
  have o: "\<not> (c div 262144 = 0 \<and> c div 4096 mod 64 < 16)"
    using assms d by linarith
  have g: "\<not> (c div 262144 = 4 \<and> 16 \<le> c div 4096 mod 64)"
    using assms d by linarith
  show ?thesis
    using decode_four [of "char_of (240 + c div 262144)" "char_of (128 + c div 4096 mod 64)"
                          "char_of (128 + c div 64 mod 64)" "char_of (128 + c mod 64)" r]
      r0 o g d(4,5,6)
    by (simp add: b0 b1 b2 b3 is_cont_def v)
qed


lemma enc_dec_char:
  assumes "encode_char c = Some cs"
  shows "utf8_decode_ignore (cs @ r) = c # utf8_decode_ignore r"
proof -
  consider "c < 128" | "128 \<le> c" "c < 2048"
    | "2048 \<le> c" "c < 65536" "\<not> (55296 \<le> c \<and> c < 57344)"
    | "65536 \<le> c" "c < 1114112"
    using assms by (auto simp: encode_char_def split: if_splits)
  then show ?thesis
  proof cases
    case 1
    then show ?thesis using assms enc_dec_1 [OF 1] by (auto simp: encode_char_def)
  next
    case 2
    then show ?thesis using assms enc_dec_2 [OF 2] by (auto simp: encode_char_def)
  next
    case 3
    then show ?thesis using assms enc_dec_3 [OF 3] by (auto simp: encode_char_def)
  next
    case 4
    then show ?thesis using assms enc_dec_4 [OF 4] by (auto simp: encode_char_def)
  qed
qed

lemma decode_encode_append:
  "utf8_encode t = Inr bs \<Longrightarrow> utf8_decode_ignore (bs @ r) = t @ utf8_decode_ignore r"
proof (induction t arbitrary: bs)
  case Nil
  then show ?case by simp
next
  case (Cons c t)
  then obtain cs bs' where cs: "encode_char c = Some cs" and bs': "utf8_encode t = Inr bs'"
    and bs: "bs = cs @ bs'"
    by (auto split: option.splits sum.splits)
  show ?case
    using enc_dec_char [OF cs, of "bs' @ r"] Cons.IH [OF bs'] bs by simp
qed

lemma decode_encode: "utf8_encode t = Inr bs \<Longrightarrow> utf8_decode_ignore bs = t"
  using decode_encode_append [of t bs "[]"] by (simp add: utf8_decode_ignore.simps)

lemma encode_char_valid: "encode_char c \<noteq> None \<longleftrightarrow> valid_char c"
  by (auto simp: encode_char_def valid_char_def)

lemma valid2:
  "b0 < 224 \<Longrightarrow> is_cont b1 \<Longrightarrow> valid_char ((b0 - 192) * 64 + (b1 - 128))"
  by (auto simp: valid_char_def is_cont_def)

lemma valid3:
  assumes "224 \<le> b0" and "b0 < 240" and "is_cont b1" and "\<not> (b0 = 237 \<and> 160 \<le> b1)"
    and "is_cont b2"
  shows "valid_char ((b0 - 224) * 4096 + (b1 - 128) * 64 + (b2 - 128))"
proof -
  obtain k i j where k: "b0 = 224 + k" and i: "b1 = 128 + i" and j: "b2 = 128 + j"
    using assms(1,3,5) by (auto simp: is_cont_def dest!: le_Suc_ex)
  have bounds: "k < 16" "i < 64" "j < 64" "\<not> (k = 13 \<and> 32 \<le> i)"
    using assms(2,3,4,5) k i j by (auto simp: is_cont_def)
  consider "k \<le> 12" | "k = 13" "i < 32" | "14 \<le> k"
    using bounds(4) by linarith
  then have "k * 4096 + i * 64 + j < 1114112 \<and>
             \<not> (55296 \<le> k * 4096 + i * 64 + j \<and> k * 4096 + i * 64 + j < 57344)"
    using bounds(1,2,3) by cases linarith+
  then show ?thesis
    by (simp add: valid_char_def k i j)
qed

lemma valid4:
  assumes "240 \<le> b0" and "b0 < 245" and "is_cont b1" and "\<not> (b0 = 240 \<and> b1 < 144)"
    and "\<not> (b0 = 244 \<and> 144 \<le> b1)" and "is_cont b2" and "is_cont b3"
  shows "valid_char ((b0 - 240) * 262144 + (b1 - 128) * 4096 + (b2 - 128) * 64 + (b3 - 128))"
proof -
  obtain k i j l where k: "b0 = 240 + k" and i: "b1 = 128 + i" and j: "b2 = 128 + j"
    and l: "b3 = 128 + l"
    using assms(1,3,6,7) by (auto simp: is_cont_def dest!: le_Suc_ex)
  have bounds: "k < 5" "i < 64" "j < 64" "l < 64" "\<not> (k = 0 \<and> i < 16)"
    "\<not> (k = 4 \<and> 16 \<le> i)"
    using assms(2-7) k i j l by (auto simp: is_cont_def)
  consider "k = 0" "16 \<le> i" | "1 \<le> k" "k \<le> 3" | "k = 4" "i < 16"
    using bounds(1,5,6) by linarith
  then have "k * 262144 + i * 4096 + j * 64 + l < 1114112 \<and>
             \<not> (55296 \<le> k * 262144 + i * 4096 + j * 64 + l \<and>
                k * 262144 + i * 4096 + j * 64 + l < 57344)"
    using bounds(2,3,4) by cases linarith+
  then show ?thesis
    by (simp add: valid_char_def k i j l)
qed

lemma decode_unfold:
  "utf8_decode_ignore (x0 # r0) =
     (let b0 = (of_char x0 :: nat) in
      if b0 < 128 then b0 # utf8_decode_ignore r0
      else if b0 < 194 then utf8_decode_ignore r0
      else if b0 < 224 then
        (case r0 of
           [] \<Rightarrow> []
         | x1 # r1 \<Rightarrow>
             (let b1 = (of_char x1 :: nat) in
              if is_cont b1 then ((b0 - 192) * 64 + (b1 - 128)) # utf8_decode_ignore r1
              else utf8_decode_ignore r0))
      else if b0 < 240 then
        (case r0 of
           [] \<Rightarrow> []
         | x1 # r1 \<Rightarrow>
             (let b1 = (of_char x1 :: nat) in
              if bad3 b0 b1
              then utf8_decode_ignore r0
              else
                (case r1 of
                   [] \<Rightarrow> []
                 | x2 # r2 \<Rightarrow>
                     (let b2 = (of_char x2 :: nat) in
                      if is_cont b2
                      then ((b0 - 224) * 4096 + (b1 - 128) * 64 + (b2 - 128))
                             # utf8_decode_ignore r2
                      else utf8_decode_ignore r1))))
      else if b0 < 245 then
        (case r0 of
           [] \<Rightarrow> []
         | x1 # r1 \<Rightarrow>
             (let b1 = (of_char x1 :: nat) in
              if bad4 b0 b1
              then utf8_decode_ignore r0
              else
                (case r1 of
                   [] \<Rightarrow> []
                 | x2 # r2 \<Rightarrow>
                     (let b2 = (of_char x2 :: nat) in
                      if \<not> is_cont b2 then utf8_decode_ignore r1
                      else
                        (case r2 of
                           [] \<Rightarrow> []
                         | x3 # r3 \<Rightarrow>
                             (let b3 = (of_char x3 :: nat) in
                              if is_cont b3
                              then ((b0 - 240) * 262144 + (b1 - 128) * 4096
                                      + (b2 - 128) * 64 + (b3 - 128))
                                     # utf8_decode_ignore r3
                              else utf8_decode_ignore r2))))))
      else utf8_decode_ignore r0)"
  by (subst utf8_decode_ignore.simps) (simp only: bad3_def bad4_def)

lemma valid_ascii: "c < 128 \<Longrightarrow> valid_char c"
  by (simp add: valid_char_def)

lemma valid3': "224 \<le> b0 \<Longrightarrow> b0 < 240 \<Longrightarrow> \<not> bad3 b0 b1 \<Longrightarrow> is_cont b2 \<Longrightarrow>
   valid_char ((b0 - 224) * 4096 + (b1 - 128) * 64 + (b2 - 128))"
  by (rule valid3) (auto simp: bad3_def)

lemma valid4': "240 \<le> b0 \<Longrightarrow> b0 < 245 \<Longrightarrow> \<not> bad4 b0 b1 \<Longrightarrow> is_cont b2 \<Longrightarrow> is_cont b3 \<Longrightarrow>
   valid_char ((b0 - 240) * 262144 + (b1 - 128) * 4096 + (b2 - 128) * 64 + (b3 - 128))"
  by (rule valid4) (auto simp: bad4_def)

lemma decode_step_subset:
  "set (utf8_decode_ignore (x0 # r0))
     \<subseteq> Collect valid_char \<union> set (utf8_decode_ignore r0) \<union> set (utf8_decode_ignore (tl r0))
         \<union> set (utf8_decode_ignore (tl (tl r0)))
         \<union> set (utf8_decode_ignore (tl (tl (tl r0))))"
  by (subst decode_unfold)
     (auto simp: Let_def valid_ascii valid2 valid3' valid4' split: list.splits)

lemma decode_valid: "set (utf8_decode_ignore bs) \<subseteq> Collect valid_char"
proof (induction bs rule: length_induct)
  case (1 bs)
  show ?case
  proof (cases bs)
    case Nil
    then show ?thesis by (simp add: utf8_decode_ignore.simps)
  next
    case (Cons x0 r0)
    have ih: "set (utf8_decode_ignore r) \<subseteq> Collect valid_char" if "length r \<le> length r0" for r
      using 1 that Cons by simp
    have "set (utf8_decode_ignore r0) \<subseteq> Collect valid_char"
      "set (utf8_decode_ignore (tl r0)) \<subseteq> Collect valid_char"
      "set (utf8_decode_ignore (tl (tl r0))) \<subseteq> Collect valid_char"
      "set (utf8_decode_ignore (tl (tl (tl r0)))) \<subseteq> Collect valid_char"
      by (rule ih, simp)+
    then show ?thesis
      unfolding Cons using decode_step_subset [of x0 r0] by blast
  qed
qed


lemma encode_nonempty: "utf8_encode t = Inr d \<Longrightarrow> t \<noteq> [] \<Longrightarrow> d \<noteq> []"
  by (cases t) (auto simp: encode_char_def split: option.splits sum.splits if_splits)

lemma strip_surrounding:
  assumes "\<forall>c \<in> set ws1. isspace c" and "\<forall>c \<in> set ws2. isspace c"
    and "t = [] \<or> (\<not> isspace (hd t) \<and> \<not> isspace (last t))"
  shows "strip (ws1 @ t @ ws2) = t"
proof (cases "t = []")
  case True
  have d: "dropWhile isspace (ws1 @ [] @ ws2) = []"
    using assms(1,2) by (simp add: dropWhile_eq_Nil_conv)
  show ?thesis unfolding strip_def True d by simp
next
  case False
  then have h: "\<not> isspace (hd t)" and l: "\<not> isspace (last t)"
    using assms(3) by simp_all
  have a: "dropWhile isspace (ws1 @ t @ ws2) = t @ ws2"
    using assms(1) False h by (cases t) (simp_all add: dropWhile_append2)
  have "\<not> isspace (hd (rev t))"
    using False l by (simp add: hd_rev)
  then have "dropWhile isspace (rev t) = rev t"
    using False by (cases "rev t") simp_all
  moreover have "dropWhile isspace (rev ws2 @ rev t) = dropWhile isspace (rev t)"
    by (rule dropWhile_append2) (use assms(2) in simp)
  ultimately have b: "dropWhile isspace (rev ws2 @ rev t) = rev t"
    by simp
  show ?thesis
    by (simp add: strip_def a b)
qed

lemma lead_end:
  "194 \<le> (of_char x0 :: nat) \<Longrightarrow> (of_char x0 :: nat) < 245 \<Longrightarrow> utf8_decode_ignore [x0] = []"
  by (subst decode_unfold) (simp add: Let_def)

lemma lead2_bad:
  "194 \<le> (of_char x0 :: nat) \<Longrightarrow> (of_char x0 :: nat) < 224 \<Longrightarrow> \<not> is_cont (of_char x1) \<Longrightarrow>
     utf8_decode_ignore (x0 # x1 # r1) = utf8_decode_ignore (x1 # r1)"
  by (subst decode_unfold) (simp add: Let_def)

lemma lead3_bad:
  "224 \<le> (of_char x0 :: nat) \<Longrightarrow> (of_char x0 :: nat) < 240 \<Longrightarrow> bad3 (of_char x0) (of_char x1) \<Longrightarrow>
     utf8_decode_ignore (x0 # x1 # r1) = utf8_decode_ignore (x1 # r1)"
  by (subst decode_unfold) (simp add: Let_def)

lemma lead3_end2:
  "224 \<le> (of_char x0 :: nat) \<Longrightarrow> (of_char x0 :: nat) < 240 \<Longrightarrow>
   \<not> bad3 (of_char x0) (of_char x1) \<Longrightarrow> utf8_decode_ignore [x0, x1] = []"
  by (subst decode_unfold) (simp add: Let_def)

lemma lead3_bad2:
  "224 \<le> (of_char x0 :: nat) \<Longrightarrow> (of_char x0 :: nat) < 240 \<Longrightarrow>
   \<not> bad3 (of_char x0) (of_char x1) \<Longrightarrow> \<not> is_cont (of_char x2) \<Longrightarrow>
     utf8_decode_ignore (x0 # x1 # x2 # r2) = utf8_decode_ignore (x2 # r2)"
  by (subst decode_unfold) (simp add: Let_def)

lemma decode_three':
  "224 \<le> (of_char x0 :: nat) \<Longrightarrow> (of_char x0 :: nat) < 240 \<Longrightarrow>
   \<not> bad3 (of_char x0) (of_char x1) \<Longrightarrow> is_cont (of_char x2) \<Longrightarrow>
     utf8_decode_ignore (x0 # x1 # x2 # r2)
       = ((of_char x0 - 224) * 4096 + (of_char x1 - 128) * 64 + (of_char x2 - 128))
           # utf8_decode_ignore r2"
  by (subst decode_unfold) (simp add: Let_def)

lemma lead4_bad:
  "240 \<le> (of_char x0 :: nat) \<Longrightarrow> (of_char x0 :: nat) < 245 \<Longrightarrow> bad4 (of_char x0) (of_char x1) \<Longrightarrow>
     utf8_decode_ignore (x0 # x1 # r1) = utf8_decode_ignore (x1 # r1)"
  by (subst decode_unfold) (simp add: Let_def)

lemma lead4_end2:
  "240 \<le> (of_char x0 :: nat) \<Longrightarrow> (of_char x0 :: nat) < 245 \<Longrightarrow>
   \<not> bad4 (of_char x0) (of_char x1) \<Longrightarrow> utf8_decode_ignore [x0, x1] = []"
  by (subst decode_unfold) (simp add: Let_def)

lemma lead4_bad2:
  "240 \<le> (of_char x0 :: nat) \<Longrightarrow> (of_char x0 :: nat) < 245 \<Longrightarrow>
   \<not> bad4 (of_char x0) (of_char x1) \<Longrightarrow> \<not> is_cont (of_char x2) \<Longrightarrow>
     utf8_decode_ignore (x0 # x1 # x2 # r2) = utf8_decode_ignore (x2 # r2)"
  by (subst decode_unfold) (simp add: Let_def)

lemma lead4_end3:
  "240 \<le> (of_char x0 :: nat) \<Longrightarrow> (of_char x0 :: nat) < 245 \<Longrightarrow>
   \<not> bad4 (of_char x0) (of_char x1) \<Longrightarrow> is_cont (of_char x2) \<Longrightarrow>
     utf8_decode_ignore [x0, x1, x2] = []"
  by (subst decode_unfold) (simp add: Let_def)

lemma lead4_bad3:
  "240 \<le> (of_char x0 :: nat) \<Longrightarrow> (of_char x0 :: nat) < 245 \<Longrightarrow>
   \<not> bad4 (of_char x0) (of_char x1) \<Longrightarrow> is_cont (of_char x2) \<Longrightarrow> \<not> is_cont (of_char x3) \<Longrightarrow>
     utf8_decode_ignore (x0 # x1 # x2 # x3 # r3) = utf8_decode_ignore (x3 # r3)"
  by (subst decode_unfold) (simp add: Let_def)

lemma decode_four':
  "240 \<le> (of_char x0 :: nat) \<Longrightarrow> (of_char x0 :: nat) < 245 \<Longrightarrow>
   \<not> bad4 (of_char x0) (of_char x1) \<Longrightarrow> is_cont (of_char x2) \<Longrightarrow> is_cont (of_char x3) \<Longrightarrow>
     utf8_decode_ignore (x0 # x1 # x2 # x3 # r3)
       = ((of_char x0 - 240) * 262144 + (of_char x1 - 128) * 4096 + (of_char x2 - 128) * 64
            + (of_char x3 - 128)) # utf8_decode_ignore r3"
  by (subst decode_unfold) (simp add: Let_def)

lemma digit_low: "i < m \<Longrightarrow> (k * m + i) div m = k \<and> (k * m + i) mod m = (i::nat)"
  by simp

lemma dec_enc1:
  "(of_char x0 :: nat) < 128 \<Longrightarrow> encode_char (of_char x0) = Some [x0]"
  by (simp add: encode_char_def)

lemma dec_enc2:
  assumes "194 \<le> (of_char x0 :: nat)" and "(of_char x0 :: nat) < 224" and "is_cont (of_char x1)"
  shows "encode_char ((of_char x0 - 192) * 64 + (of_char x1 - 128)) = Some [x0, x1]"
proof -
  obtain k i where k: "(of_char x0 :: nat) = 192 + k" and i: "(of_char x1 :: nat) = 128 + i"
    using assms(1,3) by (auto simp: is_cont_def dest!: le_Suc_ex)
  have b: "2 \<le> k" "k < 32" "i < 64"
    using assms k i by (auto simp: is_cont_def)
  define c where "c = k * 64 + i"
  have d: "c div 64 = k" "c mod 64 = i"
    using digit_low [OF b(3), of k] by (simp_all add: c_def)
  have r: "128 \<le> c" "c < 2048"
    using b by (simp_all add: c_def)
  have x: "char_of (192 + k) = x0" "char_of (128 + i) = x1"
    using k [symmetric] i [symmetric] by simp_all
  have "encode_char c = Some [x0, x1]"
    using r by (simp add: encode_char_def d x)
  then show ?thesis
    by (simp add: k i c_def)
qed

lemma dec_enc3:
  assumes "224 \<le> (of_char x0 :: nat)" and "(of_char x0 :: nat) < 240"
    and "\<not> bad3 (of_char x0) (of_char x1)" and "is_cont (of_char x2)"
  shows "encode_char ((of_char x0 - 224) * 4096 + (of_char x1 - 128) * 64 + (of_char x2 - 128))
           = Some [x0, x1, x2]"
proof -
  have c1: "is_cont (of_char x1)"
    using assms(3) by (auto simp: bad3_def)
  obtain k i j where k: "(of_char x0 :: nat) = 224 + k" and i: "(of_char x1 :: nat) = 128 + i"
    and j: "(of_char x2 :: nat) = 128 + j"
    using assms(1,4) c1 by (auto simp: is_cont_def dest!: le_Suc_ex)
  have b: "k < 16" "i < 64" "j < 64" "\<not> (k = 0 \<and> i < 32)" "\<not> (k = 13 \<and> 32 \<le> i)"
    using assms k i j c1 by (auto simp: is_cont_def bad3_def)
  define c where "c = k * 4096 + i * 64 + j"
  have c': "c = (k * 64 + i) * 64 + j"
    by (simp add: c_def)
  have d1: "c div 64 = k * 64 + i" "c mod 64 = j"
    using digit_low [OF b(3), of "k * 64 + i"] by (simp_all add: c')
  have d2: "c div 64 mod 64 = i" "c div 64 div 64 = k"
    using digit_low [OF b(2), of k] by (simp_all add: d1)
  have d3: "c div 4096 = k"
    using d2(2) div_mult2_eq [of c 64 64] by simp
  have lo: "2048 \<le> c"
  proof (cases "k = 0")
    case True
    then show ?thesis using b unfolding c_def by linarith
  next
    case False
    then show ?thesis unfolding c_def by linarith
  qed
  have hi: "c < 65536"
    using b unfolding c_def by linarith
  consider "k \<le> 12" | "k = 13" "i < 32" | "14 \<le> k"
    using b(5) by linarith
  then have su: "\<not> (55296 \<le> c \<and> c < 57344)"
    using b(1,2,3) unfolding c_def by cases linarith+
  note r = lo hi su
  have x: "char_of (224 + k) = x0" "char_of (128 + i) = x1" "char_of (128 + j) = x2"
    using k [symmetric] i [symmetric] j [symmetric] by simp_all
  have "encode_char c = Some [x0, x1, x2]"
    using r by (simp add: encode_char_def d1(2) d2(1) d3 x)
  then show ?thesis
    by (simp add: k i j c_def)
qed


lemma dec_enc4:
  assumes "240 \<le> (of_char x0 :: nat)" and "(of_char x0 :: nat) < 245"
    and "\<not> bad4 (of_char x0) (of_char x1)" and "is_cont (of_char x2)" and "is_cont (of_char x3)"
  shows "encode_char ((of_char x0 - 240) * 262144 + (of_char x1 - 128) * 4096
                        + (of_char x2 - 128) * 64 + (of_char x3 - 128))
           = Some [x0, x1, x2, x3]"
proof -
  have c1: "is_cont (of_char x1)"
    using assms(3) by (auto simp: bad4_def)
  obtain k i j l where k: "(of_char x0 :: nat) = 240 + k" and i: "(of_char x1 :: nat) = 128 + i"
    and j: "(of_char x2 :: nat) = 128 + j" and l: "(of_char x3 :: nat) = 128 + l"
    using assms(1,4,5) c1 by (auto simp: is_cont_def dest!: le_Suc_ex)
  have b: "k < 5" "i < 64" "j < 64" "l < 64" "\<not> (k = 0 \<and> i < 16)" "\<not> (k = 4 \<and> 16 \<le> i)"
    using assms k i j l c1 by (auto simp: is_cont_def bad4_def)
  define c where "c = k * 262144 + i * 4096 + j * 64 + l"
  have c': "c = ((k * 64 + i) * 64 + j) * 64 + l"
    by (simp add: c_def)
  have d1: "c div 64 = (k * 64 + i) * 64 + j" "c mod 64 = l"
    using digit_low [OF b(4), of "(k * 64 + i) * 64 + j"] by (simp_all add: c')
  have d2: "c div 64 mod 64 = j" "c div 64 div 64 = k * 64 + i"
    using digit_low [OF b(3), of "k * 64 + i"] by (simp_all add: d1)
  have d3: "c div 4096 = k * 64 + i"
    using d2(2) div_mult2_eq [of c 64 64] by simp
  have d4: "c div 4096 mod 64 = i" "c div 4096 div 64 = k"
    using digit_low [OF b(2), of k] by (simp_all add: d3)
  have d5: "c div 262144 = k"
    using d4(2) div_mult2_eq [of c 4096 64] by simp
  have lo: "65536 \<le> c"
  proof (cases "k = 0")
    case True
    then show ?thesis using b unfolding c_def by linarith
  next
    case False
    then show ?thesis unfolding c_def by linarith
  qed
  have hi: "c < 1114112"
  proof (cases "k = 4")
    case True
    then show ?thesis using b unfolding c_def by linarith
  next
    case False
    then show ?thesis using b unfolding c_def by linarith
  qed
  have x: "char_of (240 + k) = x0" "char_of (128 + i) = x1" "char_of (128 + j) = x2"
    "char_of (128 + l) = x3"
    using k [symmetric] i [symmetric] j [symmetric] l [symmetric] by simp_all
  have "encode_char c = Some [x0, x1, x2, x3]"
    using lo hi by (simp add: encode_char_def d1(2) d2(1) d4(1) d5 x)
  then show ?thesis
    by (simp add: k i j l c_def)
qed

lemma decode_step:
  obtains (skip) k where "utf8_decode_ignore (x0 # r0) = utf8_decode_ignore (drop k r0)"
  | (char) n c where "encode_char c = Some (x0 # take n r0)"
      and "utf8_decode_ignore (x0 # r0) = c # utf8_decode_ignore (drop n r0)"
proof -
  let ?b0 = "of_char x0 :: nat"
  consider (a) "?b0 < 128" | (i) "128 \<le> ?b0" "?b0 < 194 \<or> 245 \<le> ?b0"
    | (two) "194 \<le> ?b0" "?b0 < 224" | (three) "224 \<le> ?b0" "?b0 < 240"
    | (four) "240 \<le> ?b0" "?b0 < 245"
    by linarith
  then show ?thesis
  proof cases
    case a
    show ?thesis
      by (rule char [of "of_char x0" 0]) (simp_all add: a dec_enc1 decode_ascii_byte)
  next
    case i
    show ?thesis
      by (rule skip [of 0]) (simp add: i decode_invalid_start)
  next
    case two
    show ?thesis
    proof (cases r0)
      case Nil
      have "utf8_decode_ignore [x0] = []"
        using two by (intro lead_end) linarith+
      then show ?thesis
        by (intro skip [of 0]) (simp add: Nil utf8_decode_ignore.simps(1))
    next
      case (Cons x1 r1)
      show ?thesis
      proof (cases "is_cont (of_char x1)")
        case True
        show ?thesis
          by (rule char [of _ 1]) (simp_all add: Cons two True dec_enc2 decode_two)
      next
        case False
        show ?thesis
          by (rule skip [of 0]) (simp add: Cons two False lead2_bad)
      qed
    qed
  next
    case three
    show ?thesis
    proof (cases r0)
      case Nil
      have "utf8_decode_ignore [x0] = []"
        using three by (intro lead_end) linarith+
      then show ?thesis
        by (intro skip [of 0]) (simp add: Nil utf8_decode_ignore.simps(1))
    next
      case r0: (Cons x1 r1)
      show ?thesis
      proof (cases "bad3 (of_char x0) (of_char x1)")
        case True
        show ?thesis
          by (rule skip [of 0]) (simp add: r0 three True lead3_bad)
      next
        case ok: False
        show ?thesis
        proof (cases r1)
          case Nil
          show ?thesis
            by (rule skip [of 1])
               (simp add: r0 Nil three ok lead3_end2 utf8_decode_ignore.simps(1))
        next
          case r1: (Cons x2 r2)
          show ?thesis
          proof (cases "is_cont (of_char x2)")
            case True
            show ?thesis
              by (rule char [of _ 2])
                 (simp_all add: r0 r1 three ok True dec_enc3 decode_three')
          next
            case False
            show ?thesis
              by (rule skip [of 1]) (simp add: r0 r1 three ok False lead3_bad2)
          qed
        qed
      qed
    qed
  next
    case four
    show ?thesis
    proof (cases r0)
      case Nil
      have "utf8_decode_ignore [x0] = []"
        using four by (intro lead_end) linarith+
      then show ?thesis
        by (intro skip [of 0]) (simp add: Nil utf8_decode_ignore.simps(1))
    next
      case r0: (Cons x1 r1)
      show ?thesis
      proof (cases "bad4 (of_char x0) (of_char x1)")
        case True
        show ?thesis
          by (rule skip [of 0]) (simp add: r0 four True lead4_bad)
      next
        case ok: False
        show ?thesis
        proof (cases r1)
          case Nil
          show ?thesis
            by (rule skip [of 1])
               (simp add: r0 Nil four ok lead4_end2 utf8_decode_ignore.simps(1))
        next
          case r1: (Cons x2 r2)
          show ?thesis
          proof (cases "is_cont (of_char x2)")
            case False
            show ?thesis
              by (rule skip [of 1]) (simp add: r0 r1 four ok False lead4_bad2)
          next
            case c2: True
            show ?thesis
            proof (cases r2)
              case Nil
              show ?thesis
                by (rule skip [of 2])
                   (simp add: r0 r1 Nil four ok c2 lead4_end3 utf8_decode_ignore.simps(1))
            next
              case r2: (Cons x3 r3)
              show ?thesis
              proof (cases "is_cont (of_char x3)")
                case True
                show ?thesis
                  by (rule char [of _ 3])
                     (simp_all add: r0 r1 r2 four ok c2 True dec_enc4 decode_four')
              next
                case False
                show ?thesis
                  by (rule skip [of 2]) (simp add: r0 r1 r2 four ok c2 False lead4_bad3)
              qed
            qed
          qed
        qed
      qed
    qed
  qed
qed

lemma decode_keeps_subseq:
  "\<exists>kept. subseq kept bs \<and> utf8_encode (utf8_decode_ignore bs) = Inr kept"
proof (induction bs rule: length_induct)
  case (1 bs)
  show ?case
  proof (cases bs)
    case Nil
    then show ?thesis by (simp add: utf8_decode_ignore.simps(1))
  next
    case (Cons x0 r0)
    have ih: "\<exists>kept. subseq kept r \<and> utf8_encode (utf8_decode_ignore r) = Inr kept"
      if "length r \<le> length r0" for r
      using 1 that Cons by simp
    show ?thesis
    proof (cases rule: decode_step [of x0 r0])
      case (skip k)
      obtain kept where k: "subseq kept (drop k r0)"
        "utf8_encode (utf8_decode_ignore (drop k r0)) = Inr kept"
        using ih [of "drop k r0"] by auto
      have "subseq (drop k r0) r0"
        using suffix_drop [of k r0] by (rule suffix_imp_subseq)
      then have "subseq (drop k r0) (x0 # r0)"
        by (rule list_emb_Cons)
      then have "subseq kept (x0 # r0)"
        using k(1) subseq_order.order_trans by blast
      then show ?thesis
        unfolding Cons skip using k(2) by blast
    next
      case (char n c)
      obtain kept where k: "subseq kept (drop n r0)"
        "utf8_encode (utf8_decode_ignore (drop n r0)) = Inr kept"
        using ih [of "drop n r0"] by auto
      have "subseq (take n r0 @ kept) (take n r0 @ drop n r0)"
        using k(1) by (simp only: subseq_append')
      then have "subseq (take n r0 @ kept) r0"
        by (simp only: append_take_drop_id)
      then have "subseq ((x0 # take n r0) @ kept) (x0 # r0)"
        by simp
      moreover have "utf8_encode (c # utf8_decode_ignore (drop n r0))
                       = Inr ((x0 # take n r0) @ kept)"
        using char(1) k(2) by simp
      ultimately show ?thesis
        unfolding Cons char(2) by blast
    qed
  qed
qed

lemma encode_valid:
  "\<forall>c \<in> set t. valid_char c \<Longrightarrow> \<exists>b. utf8_encode t = Inr b"
proof (induction t)
  case Nil
  then show ?case by simp
next
  case (Cons c t)
  then obtain b where b: "utf8_encode t = Inr b" by auto
  have "valid_char c"
    using Cons.prems by simp
  then have "encode_char c \<noteq> None"
    using encode_char_valid [of c] by blast
  then obtain cs where "encode_char c = Some cs" by auto
  then show ?case using b by simp
qed

lemma encode_char_head:
  "encode_char c = Some cs \<Longrightarrow> cs \<noteq> [] \<and> \<not> is_cont (of_char (hd cs))"
proof -
  assume a: "encode_char c = Some cs"
  note d = digits64 [of c]
  consider "c < 128" | "128 \<le> c" "c < 2048"
    | "2048 \<le> c" "c < 65536" | "65536 \<le> c" "c < 1114112"
    using a by (auto simp: encode_char_def split: if_splits)
  then show ?thesis
  proof cases
    case 1
    then show ?thesis using a by (auto simp: encode_char_def is_cont_def)
  next
    case 2
    have "192 + c div 64 < 256" using 2 d(1,4) by linarith
    then show ?thesis using a 2 by (auto simp: encode_char_def is_cont_def)
  next
    case 3
    have "224 + c div 4096 < 256" using 3 d(1,2,4,5) by linarith
    then show ?thesis using a 3 by (auto simp: encode_char_def is_cont_def split: if_splits)
  next
    case 4
    have "240 + c div 262144 < 256" using 4 d by linarith
    then show ?thesis using a 4 by (auto simp: encode_char_def is_cont_def)
  qed
qed

lemma encode_head:
  "utf8_encode t = Inr d \<Longrightarrow> d = [] \<or> \<not> is_cont (of_char (hd d))"
proof (cases t)
  case Nil
  assume "utf8_encode t = Inr d"
  then show ?thesis using Nil by simp
next
  case (Cons c t')
  assume "utf8_encode t = Inr d"
  then obtain cs r where "encode_char c = Some cs" "d = cs @ r"
    using Cons by (auto split: option.splits sum.splits)
  then show ?thesis
    using encode_char_head [of c cs] by auto
qed

lemma invalid_run_dropped:
  "\<forall>x \<in> set j. invalid_start x \<Longrightarrow> utf8_decode_ignore (j @ r) = utf8_decode_ignore r"
  by (induction j) (auto simp: invalid_start_def decode_invalid_start)

lemma lone_lead_dropped:
  assumes "194 \<le> (of_char x0 :: nat)" and "(of_char x0 :: nat) < 245"
    and "\<not> is_cont (of_char x1)"
  shows "utf8_decode_ignore (x0 # x1 # r1) = utf8_decode_ignore (x1 # r1)"
proof -
  consider "(of_char x0 :: nat) < 224" | "224 \<le> (of_char x0 :: nat)" "(of_char x0 :: nat) < 240"
    | "240 \<le> (of_char x0 :: nat)"
    by linarith
  then show ?thesis
  proof cases
    case 1
    then show ?thesis using assms by (intro lead2_bad) simp_all
  next
    case 2
    then show ?thesis using assms by (intro lead3_bad) (simp_all add: bad3_def)
  next
    case 3
    then show ?thesis using assms by (intro lead4_bad) (simp_all add: bad4_def)
  qed
qed

lemma cut_off_dropped:
  assumes "cut_off p" and "r = [] \<or> \<not> is_cont (of_char (hd r))"
  shows "utf8_decode_ignore (p @ r) = utf8_decode_ignore r"
proof -
  consider (one) x0 where "p = [x0]" "194 \<le> (of_char x0 :: nat)" "(of_char x0 :: nat) < 245"
    | (two3) x0 x1 where "p = [x0, x1]" "224 \<le> (of_char x0 :: nat)" "(of_char x0 :: nat) < 240"
        "\<not> bad3 (of_char x0) (of_char x1)"
    | (two4) x0 x1 where "p = [x0, x1]" "240 \<le> (of_char x0 :: nat)" "(of_char x0 :: nat) < 245"
        "\<not> bad4 (of_char x0) (of_char x1)"
    | (three) x0 x1 x2 where "p = [x0, x1, x2]" "240 \<le> (of_char x0 :: nat)"
        "(of_char x0 :: nat) < 245" "\<not> bad4 (of_char x0) (of_char x1)" "is_cont (of_char x2)"
    using assms(1) by (auto simp: cut_off_def split: list.splits)
  then show ?thesis
  proof cases
    case one
    show ?thesis
    proof (cases r)
      case Nil
      then show ?thesis
        using one lead_end [of x0] by (simp add: utf8_decode_ignore.simps(1))
    next
      case (Cons x r')
      then show ?thesis
        using one assms(2) lone_lead_dropped [of x0 x r'] by simp
    qed
  next
    case two3
    show ?thesis
    proof (cases r)
      case Nil
      then show ?thesis
        using two3 lead3_end2 [of x0 x1] by (simp add: utf8_decode_ignore.simps(1))
    next
      case (Cons x r')
      then show ?thesis
        using two3 assms(2) lead3_bad2 [of x0 x1 x r'] by simp
    qed
  next
    case two4
    show ?thesis
    proof (cases r)
      case Nil
      then show ?thesis
        using two4 lead4_end2 [of x0 x1] by (simp add: utf8_decode_ignore.simps(1))
    next
      case (Cons x r')
      then show ?thesis
        using two4 assms(2) lead4_bad2 [of x0 x1 x r'] by simp
    qed
  next
    case three
    show ?thesis
    proof (cases r)
      case Nil
      then show ?thesis
        using three lead4_end3 [of x0 x1 x2] by (simp add: utf8_decode_ignore.simps(1))
    next
      case (Cons x r')
      then show ?thesis
        using three assms(2) lead4_bad3 [of x0 x1 x2 x r'] by simp
    qed
  qed
qed

lemma junk_dropped:
  assumes "utf8_encode t1 = Inr d1" and "utf8_encode t2 = Inr d2"
    and "\<forall>x \<in> set j. invalid_start x" and "p = [] \<or> cut_off p"
  shows "utf8_decode_ignore (d1 @ j @ p @ d2) = t1 @ t2"
proof -
  have "utf8_decode_ignore (p @ d2) = utf8_decode_ignore d2"
  proof (cases "p = []")
    case True
    then show ?thesis by simp
  next
    case False
    then show ?thesis
      using assms(4) encode_head [OF assms(2)] by (intro cut_off_dropped) simp_all
  qed
  then have "utf8_decode_ignore (j @ p @ d2) = t2"
    using invalid_run_dropped [OF assms(3), of "p @ d2"] decode_encode [OF assms(2)] by simp
  then show ?thesis
    using decode_encode_append [OF assms(1), of "j @ p @ d2"] by simp
qed

lemma junk_skipped:
  assumes "utf8_encode t1 = Inr d1" and "\<forall>x \<in> set j. invalid_start x"
    and "p = [] \<or> cut_off p \<and> (r = [] \<or> \<not> is_cont (of_char (hd r)))"
  shows "utf8_decode_ignore (d1 @ j @ p @ r) = t1 @ utf8_decode_ignore r"
proof -
  have "utf8_decode_ignore (p @ r) = utf8_decode_ignore r"
  proof (cases "p = []")
    case True
    then show ?thesis by simp
  next
    case False
    then show ?thesis
      using assms(3) by (intro cut_off_dropped) simp_all
  qed
  then have "utf8_decode_ignore (j @ p @ r) = utf8_decode_ignore r"
    using invalid_run_dropped [OF assms(2), of "p @ r"] by simp
  then show ?thesis
    using decode_encode_append [OF assms(1), of "j @ p @ r"] by simp
qed

lemma set_strip: "set (strip t) \<subseteq> set t"
proof -
  have "set (strip t) \<subseteq> set (rev (dropWhile isspace t))"
    unfolding strip_def using set_dropWhileD by fastforce
  also have "\<dots> \<subseteq> set t"
    using set_dropWhileD by fastforce
  finally show ?thesis .
qed

lemma valid_ascii_text: "\<forall>c \<in> set (ascii cs). c < 256"
proof -
  have "(of_char x :: nat) < 256" for x
    using of_char_mod_256 [of x, where ?'a = nat] mod_less_divisor [of 256 "of_char x"]
    by simp
  then show ?thesis by (auto simp: ascii_def)
qed

lemma valid_small: "c < 256 \<Longrightarrow> valid_char c"
  by (simp add: valid_char_def)

lemma handle_client_data_decodes:
  "received_data \<noteq> [] \<Longrightarrow>
   handle_client_data N s c (Received received_data)
     = (case process_client_message N s c (strip (utf8_decode_ignore received_data)) of
          (s1, None) \<Rightarrow> (s1, None)
        | (s1, Some e) \<Rightarrow>
            handle_client_disconnection N
              (log_message s1 (LineExn ''Error handling client data: '' e)) c)"
  by simp

lemma unnamed_other_text:
  assumes "received_data \<noteq> []" and "map_of (client_names s) c = None"
    and "\<not> startswith (strip (utf8_decode_ignore received_data)) NAME_PREFIX"
  shows "handle_client_data N s c (Received received_data) = (s, None)"
  using assms by (simp add: process_client_message_def handle_name_registration_def)

lemma unnamed_registers:
  assumes "received_data \<noteq> []" and "map_of (client_names s) c = None"
    and "startswith (strip (utf8_decode_ignore received_data)) NAME_PREFIX"
    and "strip (drop (length NAME_PREFIX) (strip (utf8_decode_ignore received_data))) \<noteq> []"
  shows "snd (handle_client_data N s c (Received received_data)) = None \<and>
         client_names (fst (handle_client_data N s c (Received received_data)))
           = AList.update c
               (strip (drop (length NAME_PREFIX) (strip (utf8_decode_ignore received_data))))
               (client_names s)"
proof -
  let ?text = "strip (utf8_decode_ignore received_data)"
  let ?u = "strip (drop (length NAME_PREFIX) ?text)"
  let ?join = "SYS_PREFIX @ ?u @ ascii '' joined''"
  have "set ?u \<subseteq> set (utf8_decode_ignore received_data)"
    using set_strip [of "drop (length NAME_PREFIX) ?text"]
      set_drop_subset [of "length NAME_PREFIX" ?text] set_strip [of "utf8_decode_ignore received_data"]
    by blast
  then have vu: "\<forall>c \<in> set ?u. valid_char c"
    using decode_valid [of received_data] by blast
  have "\<forall>c \<in> set ?join. valid_char c"
    using vu valid_ascii_text [of "''SYS:''"] valid_ascii_text [of "'' joined''"]
    by (auto simp: SYS_PREFIX_def intro: valid_small)
  then obtain b where b: "utf8_encode ?join = Inr b"
    using encode_valid by blast
  let ?s1 = "log_message (s\<lparr>client_names := AList.update c ?u (client_names s)\<rparr>) (Line ?join)"
  have run: "process_client_message N s c ?text = broadcast_message ?s1 ?join"
    using assms(2,3,4)
    by (simp add: process_client_message_def handle_name_registration_def Let_def)
  have bm: "broadcast_message ?s1 ?join
              = (?s1\<lparr>message_queues :=
                        fold (enqueue b) (map fst (message_queues ?s1)) (message_queues ?s1)\<rparr>, None)"
    using b by (rule broadcast_message_eq)
  have "handle_client_data N s c (Received received_data)
          = (?s1\<lparr>message_queues :=
                    fold (enqueue b) (map fst (message_queues ?s1)) (message_queues ?s1)\<rparr>, None)"
    using assms(1) by (simp add: run bm)
  then show ?thesis
    by (simp add: log_message_def)
qed

section \<open>The claims\<close>

text \<open>
  C1 (as the code has it).  When a named client's chat message is relayed, the encoded
  \<open>FROM:<name>:<text>\<close> bytes are appended to the queue of every connected client,
  that is of every key of \<open>message_queues\<close>: the sender's own queue and the queues of
  clients that have no name yet included.  No queue is added or removed.
\<close>

theorem chat_broadcast_reaches_every_queue:
  assumes "distinct (map fst (message_queues s))"
    and "map_of (client_names s) c = Some n"
    and "getpeername N s c = Inr addr"
    and "utf8_encode (FROM_PREFIX @ n @ ascii '':'' @ strip t) = Inr b"
  shows "snd (process_client_message N s c (MSG_PREFIX @ t)) = None \<and>
         map fst (message_queues (fst (process_client_message N s c (MSG_PREFIX @ t))))
           = map fst (message_queues s) \<and>
         (\<forall>c'. map_of (message_queues (fst (process_client_message N s c (MSG_PREFIX @ t)))) c'
                 = map_option (\<lambda>q. q @ [b]) (map_of (message_queues s) c'))"
proof -
  let ?s1 = "log_message s (Line (n @ ascii '': '' @ strip t))"
  let ?m = "FROM_PREFIX @ n @ ascii '':'' @ strip t"
  have d: "distinct (map fst (message_queues ?s1))"
    using assms(1) by (simp add: log_message_def)
  have run: "process_client_message N s c (MSG_PREFIX @ t) = broadcast_message ?s1 ?m"
    using assms(2,3)
    by (simp add: process_client_message_def handle_chat_message_def startswith_append Let_def)
  have out: "snd (broadcast_message ?s1 ?m) = None"
    using broadcast_message_eq [OF assms(4)] by simp
  have keys: "map fst (message_queues (fst (broadcast_message ?s1 ?m)))
                = map fst (message_queues s)"
    by (simp add: keys_broadcast log_message_def)
  have queues: "map_of (message_queues (fst (broadcast_message ?s1 ?m))) c'
                  = map_option (\<lambda>q. q @ [b]) (map_of (message_queues s) c')" for c'
    using map_of_broadcast [OF d assms(4)] by (simp add: log_message_def)
  show ?thesis
    unfolding run using out keys queues by simp
qed

text \<open>
  Witness for C1: alice (socket 1) sends \<open>MSG:hi\<close> while socket 2 is connected without
  a name; both queues receive \<open>FROM:alice:hi\<close>.
\<close>

theorem chat_broadcast_reaches_every_queue_witness:
  "map_of (message_queues
     (fst (process_client_message quiet_network alice_joined 1 (MSG_PREFIX @ ascii ''hi'')))) 1
     = Some [''SYS:alice joined'', ''FROM:alice:hi''] \<and>
   map_of (message_queues
     (fst (process_client_message quiet_network alice_joined 1 (MSG_PREFIX @ ascii ''hi'')))) 2
     = Some [''SYS:alice joined'', ''FROM:alice:hi'']"
proof -
  have h1: "distinct (map fst (message_queues alice_joined))"
    by (simp add: example_defs server_defs py_defs)
  have h2: "map_of (client_names alice_joined) 1 = Some (ascii ''alice'')"
    by (simp add: example_defs server_defs py_defs)
  have h3: "getpeername quiet_network alice_joined 1 = Inr (ascii ''('127.0.0.1', 50000)'')"
    by (simp add: example_defs server_defs py_defs)
  have h4: "utf8_encode (FROM_PREFIX @ ascii ''alice'' @ ascii '':'' @ strip (ascii ''hi''))
              = Inr ''FROM:alice:hi''"
    by (simp add: server_defs py_defs)
  have q1: "map_of (message_queues alice_joined) 1 = Some [''SYS:alice joined'']"
    by (simp add: example_defs server_defs py_defs)
  have q2: "map_of (message_queues alice_joined) 2 = Some [''SYS:alice joined'']"
    by (simp add: example_defs server_defs py_defs)
  show ?thesis
    using chat_broadcast_reaches_every_queue [OF h1 h2 h3 h4] q1 q2 by simp
qed

text \<open>
  Counterexample to C1 as stated: socket 2 is connected and has no name, and the chat
  message of alice is enqueued for it all the same.
\<close>

theorem unnamed_client_excluded_counterexample:
  "2 \<in> set (input_sockets alice_joined) \<and>
   map_of (client_names alice_joined) 2 = None \<and>
   map_of (message_queues
            (fst (handle_client_data quiet_network alice_joined 1 (Received ''MSG:hi'')))) 2
     = Some [''SYS:alice joined'', ''FROM:alice:hi'']"
  by (simp add: example_defs server_defs py_defs)

text \<open>
  C2 (as the code has it).  A \<open>NAME:\<close> message from a client whose name is already set
  is ignored: the stored name and the whole server stay as they are.  A client without
  a name that announces a non-empty name gets exactly that name, whatever names the
  other clients have: no uniqueness is checked and nothing is raised.
\<close>

theorem name_announce_when_named_ignored:
  "(map_of (client_names s) c = Some n \<and> startswith message_text NAME_PREFIX \<longrightarrow>
      process_client_message N s c message_text = (s, None)) \<and>
   (map_of (client_names s) c = None \<and> strip t \<noteq> [] \<and>
    utf8_encode (SYS_PREFIX @ strip t @ ascii '' joined'') = Inr b \<longrightarrow>
      snd (process_client_message N s c (NAME_PREFIX @ t)) = None \<and>
      client_names (fst (process_client_message N s c (NAME_PREFIX @ t)))
        = AList.update c (strip t) (client_names s))"
proof (intro conjI impI)
  assume "map_of (client_names s) c = Some n \<and> startswith message_text NAME_PREFIX"
  then show "process_client_message N s c message_text = (s, None)"
    by (simp add: process_client_message_def handle_chat_message_def startswith_NAME_not_MSG)
next
  assume a: "map_of (client_names s) c = None \<and> strip t \<noteq> [] \<and>
             utf8_encode (SYS_PREFIX @ strip t @ ascii '' joined'') = Inr b"
  let ?s1 = "log_message (s\<lparr>client_names := AList.update c (strip t) (client_names s)\<rparr>)
               (Line (SYS_PREFIX @ strip t @ ascii '' joined''))"
  have run: "process_client_message N s c (NAME_PREFIX @ t)
               = broadcast_message ?s1 (SYS_PREFIX @ strip t @ ascii '' joined'')"
    using a
    by (simp add: process_client_message_def handle_name_registration_def startswith_append
        Let_def)
  have e: "utf8_encode (SYS_PREFIX @ strip t @ ascii '' joined'') = Inr b"
    using a by simp
  show "snd (process_client_message N s c (NAME_PREFIX @ t)) = None"
    unfolding run using broadcast_message_eq [OF e] by simp
  show "client_names (fst (process_client_message N s c (NAME_PREFIX @ t)))
          = AList.update c (strip t) (client_names s)"
    unfolding run using broadcast_message_eq [OF e] by (simp add: log_message_def)
qed

text \<open>
  Witness for C2: alice's second announcement \<open>NAME:bob\<close> changes nothing, and socket 2
  may take the name alice, which socket 1 already has.
\<close>

theorem name_announce_when_named_ignored_witness:
  "process_client_message quiet_network alice_joined 1 (ascii ''NAME:bob'')
     = (alice_joined, None) \<and>
   snd (process_client_message quiet_network alice_joined 2 (NAME_PREFIX @ ascii ''alice''))
     = None \<and>
   client_names
     (fst (process_client_message quiet_network alice_joined 2 (NAME_PREFIX @ ascii ''alice'')))
     = [(1, ascii ''alice''), (2, ascii ''alice'')]"
proof -
  have h1: "map_of (client_names alice_joined) 1 = Some (ascii ''alice'') \<and>
            startswith (ascii ''NAME:bob'') NAME_PREFIX"
    by (simp add: example_defs server_defs py_defs)
  have h2: "map_of (client_names alice_joined) 2 = None \<and> strip (ascii ''alice'') \<noteq> [] \<and>
            utf8_encode (SYS_PREFIX @ strip (ascii ''alice'') @ ascii '' joined'')
              = Inr ''SYS:alice joined''"
    by (simp add: example_defs server_defs py_defs)
  have u: "AList.update 2 (strip (ascii ''alice'')) (client_names alice_joined)
             = [(1, ascii ''alice''), (2, ascii ''alice'')]"
    by (simp add: example_defs server_defs py_defs)
  show ?thesis
    using name_announce_when_named_ignored
            [where s = alice_joined and c = 1 and n = "ascii ''alice''"
               and message_text = "ascii ''NAME:bob''" and N = quiet_network]
          name_announce_when_named_ignored
            [where s = alice_joined and c = 2 and t = "ascii ''alice''"
               and b = "''SYS:alice joined''" and N = quiet_network]
          h1 h2 u
    by simp
qed

text \<open>
  Counterexample to C2 as stated: alice is registered on socket 1 and sends
  \<open>NAME:bob\<close>; her stored name is still alice.
\<close>

theorem name_announce_when_named_counterexample:
  "map_of (client_names alice_joined) 1 = Some (ascii ''alice'') \<and>
   map_of (client_names
            (fst (handle_client_data quiet_network alice_joined 1 (Received ''NAME:bob'')))) 1
     = Some (ascii ''alice'')"
  by (simp add: example_defs server_defs py_defs)

text \<open>
  C4.  The failing run: alice (socket 1) is disconnected once, which returns; the
  second disconnection call for the same socket adds no log line and changes nothing,
  but it does not return: \<open>getpeername()\<close> on the closed socket raises \<open>OSError\<close>.
  The same happens inside \<open>_handle_exceptional_sockets\<close> when the socket is listed
  twice.
\<close>

theorem second_disconnection_raises:
  "handle_client_disconnection quiet_network alice_joined 1 = (alice_left, None) \<and>
   handle_client_disconnection quiet_network alice_left 1
     = (alice_left, Some (OSError ''[Errno 9] Bad file descriptor'')) \<and>
   snd (handle_exceptional_sockets quiet_network
          (alice_joined\<lparr>exceptional_sockets := [1, 1]\<rparr>) [1, 1])
     = Some (OSError ''[Errno 9] Bad file descriptor'')"
  by (simp add: example_defs server_defs py_defs)

text \<open>
  C6.  A message that starts with \<open>MSG:\<close> and comes from a client without a name is
  ignored: the call returns normally and the server (queues, names, log, socket lists)
  is unchanged, both for the text handed to \<open>_process_client_message\<close> and for the
  bytes handed to \<open>_handle_client_data\<close>.
\<close>

theorem unnamed_chat_ignored:
  assumes "map_of (client_names s) c = None"
  shows "(startswith message_text MSG_PREFIX \<longrightarrow>
            process_client_message N s c message_text = (s, None)) \<and>
         (received_data \<noteq> [] \<and>
          startswith (strip (utf8_decode_ignore received_data)) MSG_PREFIX \<longrightarrow>
            handle_client_data N s c (Received received_data) = (s, None))"
  using assms
  by (simp add: process_client_message_def handle_name_registration_def startswith_MSG_not_NAME)

text \<open>Witness for C6: socket 2 has no name and sends \<open>MSG:hello\<close>.\<close>

theorem unnamed_chat_ignored_witness:
  "process_client_message quiet_network alice_joined 2 (ascii ''MSG:hello'')
     = (alice_joined, None) \<and>
   handle_client_data quiet_network alice_joined 2 (Received '' MSG:hello  '')
     = (alice_joined, None)"
proof -
  have h: "map_of (client_names alice_joined) 2 = None"
    by (simp add: example_defs server_defs py_defs)
  have a: "startswith (ascii ''MSG:hello'') MSG_PREFIX"
    by (simp add: server_defs py_defs)
  have b: "'' MSG:hello  '' \<noteq> [] \<and>
           startswith (strip (utf8_decode_ignore '' MSG:hello  '')) MSG_PREFIX"
    by (simp add: server_defs py_defs)
  show ?thesis
    using unnamed_chat_ignored
            [OF h, of "ascii ''MSG:hello''" quiet_network "'' MSG:hello  ''"] a b
    by blast
qed

text \<open>
  C8.  The outbound queue of a connected client is first in, first out.  Enqueueing
  (the broadcast) appends at the end of the queue and sends nothing.  The writable
  handler, called with any list of sockets, sends to socket \<open>c\<close> the front of its
  queue, element by element in queue order, once per occurrence of \<open>c\<close> in the list,
  and leaves the rest of the queue in order.
\<close>

theorem outbound_queue_fifo:
  assumes "distinct (map fst (message_queues s))"
    and "map_of (message_queues s) c = Some q"
  shows "(utf8_encode m = Inr b \<longrightarrow>
            map_of (message_queues (fst (broadcast_message s m))) c = Some (q @ [b]) \<and>
            sent_to c (fst (broadcast_message s m)) = sent_to c s) \<and>
         sent_to c (handle_writable_sockets N s cs) = sent_to c s @ take (count_list cs c) q \<and>
         map_of (message_queues (handle_writable_sockets N s cs)) c
           = Some (drop (count_list cs c) q)"
  using map_of_broadcast [OF assms(1), of m b c] assms(2)
    writable_drains_in_order [OF assms(2)]
  by (simp add: sent_to_def broadcast_send_calls)

text \<open>
  Witness for C8: socket 2 has \<open>SYS:alice joined\<close> in its queue; a second notice is
  broadcast and lands behind it; the writable handler then sends the two in that order.
\<close>

theorem outbound_queue_fifo_witness:
  "map_of (message_queues (fst (broadcast_message alice_joined (ascii ''SYS:bob joined'')))) 2
     = Some [''SYS:alice joined'', ''SYS:bob joined''] \<and>
   sent_to 2 (handle_writable_sockets quiet_network
                (fst (broadcast_message alice_joined (ascii ''SYS:bob joined''))) [2, 1, 2])
     = [''SYS:alice joined'', ''SYS:bob joined'']"
proof -
  let ?s = "fst (broadcast_message alice_joined (ascii ''SYS:bob joined''))"
  have h1: "distinct (map fst (message_queues alice_joined))"
    by (simp add: example_defs server_defs py_defs)
  have h2: "map_of (message_queues alice_joined) 2 = Some [''SYS:alice joined'']"
    by (simp add: example_defs server_defs py_defs)
  have e: "utf8_encode (ascii ''SYS:bob joined'') = Inr ''SYS:bob joined''"
    by (simp add: py_defs)
  have h3: "distinct (map fst (message_queues ?s))"
    by (simp add: example_defs server_defs py_defs)
  have h4: "map_of (message_queues ?s) 2 = Some [''SYS:alice joined'', ''SYS:bob joined'']"
    by (simp add: example_defs server_defs py_defs)
  have z: "sent_to 2 ?s = []"
    by (simp add: example_defs server_defs py_defs)
  show ?thesis
    using outbound_queue_fifo [OF h1 h2, of "ascii ''SYS:bob joined''" "''SYS:bob joined''"]
      outbound_queue_fifo [OF h3 h4, of _ _ quiet_network "[2, 1, 2]"] e z
    by simp
qed

text \<open>
  C3 (as the code has it).  When creating or connecting the socket fails, the client
  is disconnected again: it emits "Connection failed, retrying in Ns" with the current
  delay, sleeps for that delay, and returns the doubled delay, capped at the maximum.
  When the connection is established and only the send of the handshake fails, the
  failure is printed and nothing else: the client keeps the socket (it is connected),
  emits "Connected to chat server" and returns the base delay.
\<close>

theorem attempt_connection_outcomes:
  "(connect_raises x = Some e \<longrightarrow>
      attempt_connection cl d x
        = (cl\<lparr>client_socket := None, trace := trace cl @ backoff_actions d\<rparr>,
           min RECONNECT_MAX_DELAY (d * 2))) \<and>
   (connect_raises x = None \<and> handshake_raises x = Some e \<and>
    utf8_encode (NAME_PREFIX @ username cl) = Inr b \<longrightarrow>
      attempt_connection cl d x
        = (cl\<lparr>client_socket := Some (new_socket x), inputs := [new_socket x], outputs := [],
              send_calls_c := send_calls_c cl @ [b],
              trace := trace cl @ [Print ''Failed to send username: '' e,
                                   Notice (SystemMessage (ascii ''Connected to chat server''))]\<rparr>,
           RECONNECT_BASE_DELAY))"
  by (simp add: attempt_connection_def send_username_handshake_def cleanup_connection_def
      emit_def backoff_actions_def Let_def)

text \<open>
  Witness for C3: a refused connection with delay 4, and a broken handshake.
\<close>

theorem attempt_connection_outcomes_witness:
  "attempt_connection alice 4 refused
     = (alice\<lparr>trace := [Notice (SystemMessage (ascii ''Connection failed, retrying in 4s'')),
                        Sleep 4]\<rparr>, 8) \<and>
   client_socket (fst (attempt_connection alice 4 handshake_broken)) = Some 5 \<and>
   snd (attempt_connection alice 4 handshake_broken) = 1"
proof -
  have h1: "connect_raises refused = Some (OSError ''[Errno 111] Connection refused'')"
    by (simp add: refused_def)
  have h2: "connect_raises handshake_broken = None \<and>
            handshake_raises handshake_broken = Some (OSError ''[Errno 32] Broken pipe'') \<and>
            utf8_encode (NAME_PREFIX @ username alice) = Inr ''NAME:alice''"
    by (simp add: client_defs py_defs)
  have s4: "str_int 4 = ascii ''4''"
    by (simp add: str_int_def decimal_digit ascii_def)
  have a: "client_socket alice = None" "trace alice = []"
    by (simp_all add: alice_def initial_client_def)
  have n: "alice\<lparr>client_socket := None\<rparr> = alice"
    by (simp add: alice_def initial_client_def)
  show ?thesis
    using attempt_connection_outcomes [where x = refused and cl = alice and d = 4
        and e = "OSError ''[Errno 111] Connection refused''"]
      attempt_connection_outcomes [where x = handshake_broken and cl = alice and d = 4
        and e = "OSError ''[Errno 32] Broken pipe''" and b = "''NAME:alice''"]
      h1 h2
    by (simp add: backoff_actions_def s4 a n RECONNECT_BASE_DELAY_def RECONNECT_MAX_DELAY_def
        ascii_def handshake_broken_def)
qed

text \<open>
  Counterexample to C3 as stated: the connection is established, the send of the
  handshake raises, and the client is connected, with no retry notice, no sleep and the
  delay back at 1.
\<close>

theorem handshake_failure_counterexample:
  "attempt_connection alice 4 handshake_broken
     = (\<lparr>client_socket = Some 5, inputs = [5], outputs = [], username = ascii ''alice'',
         input_text = [], send_calls_c = [''NAME:alice''],
         trace = [Print ''Failed to send username: '' (OSError ''[Errno 32] Broken pipe''),
                  Notice (SystemMessage (ascii ''Connected to chat server''))]\<rparr>, 1)"
  by (simp add: client_defs py_defs)

text \<open>
  C5.  Started with the base delay and while every connection attempt fails, the
  network loop reports and sleeps the delays \<open>min 16 (2 ^ k)\<close> for \<open>k = 0, 1, 2, ...\<close>, that
  is 1, 2, 4, 8, 16, 16, ...  After one successful connect, whatever the delay was
  before and however long the connection lasted, the delay is 1 when the peer is gone,
  and the following failures report 1, 2, 4, ... again.
\<close>

theorem backoff_sequence:
  "(client_socket cl = None \<and> (\<forall>x \<in> set xs. connect_raises x \<noteq> None) \<longrightarrow>
      network_loop cl RECONNECT_BASE_DELAY xs
        = (cl\<lparr>trace := trace cl @ concat (map (\<lambda>k. backoff_actions (min RECONNECT_MAX_DELAY (2 ^ k)))
                                               [0 ..< length xs])\<rparr>,
           min RECONNECT_MAX_DELAY (2 ^ length xs))) \<and>
   (client_socket cl = None \<and> connect_raises x = None \<and> (\<forall>w \<in> set ws. stays_connected w) \<and>
    peer_closes z \<and> (\<forall>y \<in> set ys. connect_raises y \<noteq> None) \<longrightarrow>
      snd (network_loop cl d (x # ws @ [z])) = RECONNECT_BASE_DELAY \<and>
      network_loop cl d (x # ws @ [z] @ ys)
        = (fst (network_loop cl d (x # ws @ [z]))
             \<lparr>trace := trace (fst (network_loop cl d (x # ws @ [z])))
                         @ concat (map (\<lambda>k. backoff_actions (min RECONNECT_MAX_DELAY (2 ^ k)))
                                       [0 ..< length ys])\<rparr>,
           min RECONNECT_MAX_DELAY (2 ^ length ys)))"
proof (intro conjI impI)
  assume "client_socket cl = None \<and> (\<forall>x \<in> set xs. connect_raises x \<noteq> None)"
  then show "network_loop cl RECONNECT_BASE_DELAY xs
        = (cl\<lparr>trace := trace cl @ concat (map (\<lambda>k. backoff_actions (min RECONNECT_MAX_DELAY (2 ^ k)))
                                               [0 ..< length xs])\<rparr>,
           min RECONNECT_MAX_DELAY (2 ^ length xs))"
    using failures_from [of cl xs 0]
    by (simp add: RECONNECT_BASE_DELAY_def RECONNECT_MAX_DELAY_def)
next
  assume a: "client_socket cl = None \<and> connect_raises x = None \<and>
             (\<forall>w \<in> set ws. stays_connected w) \<and> peer_closes z \<and>
             (\<forall>y \<in> set ys. connect_raises y \<noteq> None)"
  obtain c1 d1 where r1: "network_loop cl d [x] = (c1, d1)" by force
  have s1: "d1 = RECONNECT_BASE_DELAY" "client_socket c1 \<noteq> None"
    using connect_step [of cl x d] a r1 by simp_all
  obtain c2 d2 where r2: "network_loop c1 d1 ws = (c2, d2)" by force
  have s2: "d2 = RECONNECT_BASE_DELAY" "client_socket c2 \<noteq> None"
    using connected_polls [of c1 ws d1] a r2 s1 by simp_all
  obtain c3 d3 where r3: "network_loop c2 d2 [z] = (c3, d3)" by force
  have s3: "d3 = RECONNECT_BASE_DELAY" "client_socket c3 = None"
    using peer_close_step [of c2 z d2] a r3 s2 by simp_all
  have whole: "network_loop cl d (x # ws @ [z]) = (c3, d3)"
    using network_loop_append [of cl d "[x]" "ws @ [z]"] network_loop_append [of c1 d1 ws "[z]"]
      r1 r2 r3
    by simp
  show "snd (network_loop cl d (x # ws @ [z])) = RECONNECT_BASE_DELAY"
    using whole s3 by simp
  have rest: "network_loop cl d (x # ws @ [z] @ ys) = network_loop c3 d3 ys"
    using network_loop_append [of cl d "x # ws @ [z]" ys] whole by simp
  show "network_loop cl d (x # ws @ [z] @ ys)
        = (fst (network_loop cl d (x # ws @ [z]))
             \<lparr>trace := trace (fst (network_loop cl d (x # ws @ [z])))
                         @ concat (map (\<lambda>k. backoff_actions (min RECONNECT_MAX_DELAY (2 ^ k)))
                                       [0 ..< length ys])\<rparr>,
           min RECONNECT_MAX_DELAY (2 ^ length ys))"
    unfolding rest whole
    using failures_from [of c3 ys 0] a s3
    by (simp add: RECONNECT_BASE_DELAY_def RECONNECT_MAX_DELAY_def)
qed

text \<open>
  Witness for C5: six refused attempts; then, from delay 16, a connection, an idle
  turn, the server closing, and two refused attempts.
\<close>

theorem backoff_sequence_witness:
  "network_loop alice 1 (replicate 6 refused)
     = (alice\<lparr>trace := backoff_actions 1 @ backoff_actions 2 @ backoff_actions 4
                      @ backoff_actions 8 @ backoff_actions 16 @ backoff_actions 16\<rparr>, 16) \<and>
   snd (network_loop alice 16 (accepted # [idle] @ [server_gone])) = 1 \<and>
   trace (fst (network_loop alice 16 (accepted # [idle] @ [server_gone] @ [refused, refused])))
     = trace (fst (network_loop alice 16 (accepted # [idle] @ [server_gone])))
         @ backoff_actions 1 @ backoff_actions 2"
proof -
  have h1: "client_socket alice = None \<and> (\<forall>x \<in> set (replicate 6 refused). connect_raises x \<noteq> None)"
    by (simp add: alice_def initial_client_def refused_def)
  have h2: "client_socket alice = None \<and> connect_raises accepted = None \<and>
            (\<forall>w \<in> set [idle]. stays_connected w) \<and> peer_closes server_gone \<and>
            (\<forall>y \<in> set [refused, refused]. connect_raises y \<noteq> None)"
    by (simp add: alice_def initial_client_def refused_def accepted_def idle_def server_gone_def
        stays_connected_def peer_closes_def)
  have u6: "[0 ..< 6] = [0, 1, 2, 3, 4, 5::nat]" by (simp add: upt_rec)
  have u2: "[0 ..< 2] = [0, 1::nat]" by (simp add: upt_rec)
  have t0: "trace alice = []" by (simp add: alice_def initial_client_def)
  show ?thesis
    using backoff_sequence [where cl = alice and xs = "replicate 6 refused"]
      backoff_sequence [where cl = alice and x = accepted and ws = "[idle]" and z = server_gone
        and ys = "[refused, refused]" and d = 16] h1 h2
    by (simp add: u6 u2 t0 RECONNECT_BASE_DELAY_def RECONNECT_MAX_DELAY_def)
qed



text \<open>
  C9 (as the code has it).  \<open>send_message\<close> does nothing when the input is empty
  after stripping.  When there is no socket it sends nothing and emits "Not connected
  to server".  When there is a socket and the text can be encoded, it makes exactly one
  \<open>send\<close> call, with the bytes of \<open>MSG:<text>\<close>; if that call raises, it emits "Failed
  to send message: ..." and keeps the socket.  When there is a socket and the text
  cannot be encoded (it holds a surrogate), \<open>encode\<close> raises inside the \<open>try\<close>: no
  \<open>send\<close> call is made, "Failed to send message: ..." is emitted, and the socket is
  kept.
\<close>

theorem send_message_cases:
  "(strip (input_text cl) = [] \<longrightarrow> send_message cl r = cl) \<and>
   (strip (input_text cl) \<noteq> [] \<and> client_socket cl = None \<longrightarrow>
      send_message cl r
        = cl\<lparr>input_text := [],
             trace := trace cl @ [Notice (SystemMessage (ascii ''Not connected to server''))]\<rparr>) \<and>
   (strip (input_text cl) \<noteq> [] \<and> client_socket cl = Some sk \<and>
    utf8_encode (MSG_PREFIX @ strip (input_text cl)) = Inr b \<longrightarrow>
      send_message cl None
        = cl\<lparr>input_text := [], send_calls_c := send_calls_c cl @ [b]\<rparr> \<and>
      send_message cl (Some e)
        = cl\<lparr>input_text := [], send_calls_c := send_calls_c cl @ [b],
             trace := trace cl @ [Notice (SystemMessageExn ''Failed to send message: '' e)]\<rparr> \<and>
      client_socket (send_message cl (Some e)) = Some sk) \<and>
   (strip (input_text cl) \<noteq> [] \<and> client_socket cl = Some sk \<and>
    utf8_encode (MSG_PREFIX @ strip (input_text cl)) = Inl e' \<longrightarrow>
      send_message cl r
        = cl\<lparr>input_text := [],
             trace := trace cl @ [Notice (SystemMessageExn ''Failed to send message: '' e')]\<rparr>)"
  by (simp add: send_message_def emit_def Let_def)

text \<open>
  Witness for C9: blank input; \<open>hi\<close> typed while disconnected; \<open>hi\<close> typed while
  connected, with a working and with a broken send; \<open>h\<close> and a surrogate typed while
  connected.
\<close>

theorem send_message_cases_witness:
  "send_message (alice_online\<lparr>input_text := ascii ''   ''\<rparr>) None
     = alice_online\<lparr>input_text := ascii ''   ''\<rparr> \<and>
   trace (send_message (alice\<lparr>input_text := ascii '' hi ''\<rparr>) None)
     = [Notice (SystemMessage (ascii ''Not connected to server''))] \<and>
   send_calls_c (send_message (alice\<lparr>input_text := ascii '' hi ''\<rparr>) None) = [] \<and>
   send_calls_c (send_message (alice_online\<lparr>input_text := ascii '' hi ''\<rparr>) None)
     = [''NAME:alice'', ''MSG:hi''] \<and>
   client_socket (send_message (alice_online\<lparr>input_text := ascii '' hi ''\<rparr>)
                    (Some (OSError ''[Errno 32] Broken pipe''))) = Some 4 \<and>
   send_message (alice_online\<lparr>input_text := ascii ''h'' @ [55296]\<rparr>) None
     = alice_online\<lparr>input_text := [],
                    trace := trace alice_online
                      @ [Notice (SystemMessageExn ''Failed to send message: ''
                                   UnicodeEncodeError)]\<rparr>"
proof -
  have h1: "strip (input_text (alice_online\<lparr>input_text := ascii ''   ''\<rparr>)) = []"
    by (simp add: py_defs)
  have h2: "strip (input_text (alice\<lparr>input_text := ascii '' hi ''\<rparr>)) \<noteq> [] \<and>
            client_socket (alice\<lparr>input_text := ascii '' hi ''\<rparr>) = None"
    by (simp add: client_defs py_defs)
  have h3: "strip (input_text (alice_online\<lparr>input_text := ascii '' hi ''\<rparr>)) \<noteq> [] \<and>
            client_socket (alice_online\<lparr>input_text := ascii '' hi ''\<rparr>) = Some 4 \<and>
            utf8_encode (MSG_PREFIX @ strip (input_text (alice_online\<lparr>input_text := ascii '' hi ''\<rparr>)))
              = Inr ''MSG:hi''"
    by (simp add: client_defs py_defs)
  have h4: "strip (input_text (alice_online\<lparr>input_text := ascii ''h'' @ [55296]\<rparr>)) \<noteq> [] \<and>
            client_socket (alice_online\<lparr>input_text := ascii ''h'' @ [55296]\<rparr>) = Some 4 \<and>
            utf8_encode (MSG_PREFIX
                          @ strip (input_text (alice_online\<lparr>input_text := ascii ''h'' @ [55296]\<rparr>)))
              = Inl UnicodeEncodeError"
    by (simp add: client_defs py_defs)
  have t: "trace alice = []" "send_calls_c alice = []"
    "send_calls_c alice_online = [''NAME:alice'']" "client_socket alice_online = Some 4"
    by (simp_all add: client_defs py_defs)
  note T = send_message_cases
  have c1: "send_message (alice_online\<lparr>input_text := ascii ''   ''\<rparr>) None
              = alice_online\<lparr>input_text := ascii ''   ''\<rparr>"
    by (rule T [THEN conjunct1, THEN mp, OF h1])
  have c2: "send_message (alice\<lparr>input_text := ascii '' hi ''\<rparr>) None
              = alice\<lparr>input_text := ascii '' hi ''\<rparr>
                  \<lparr>input_text := [],
                   trace := trace (alice\<lparr>input_text := ascii '' hi ''\<rparr>)
                     @ [Notice (SystemMessage (ascii ''Not connected to server''))]\<rparr>"
    by (rule T [THEN conjunct2, THEN conjunct1, THEN mp, OF h2])
  have c3: "send_calls_c (send_message (alice_online\<lparr>input_text := ascii '' hi ''\<rparr>) None)
              = [''NAME:alice'', ''MSG:hi''] \<and>
            client_socket (send_message (alice_online\<lparr>input_text := ascii '' hi ''\<rparr>)
                             (Some (OSError ''[Errno 32] Broken pipe''))) = Some 4"
    using T [THEN conjunct2, THEN conjunct2, THEN conjunct1, THEN mp, OF h3,
             of "OSError ''[Errno 32] Broken pipe''"] t
    by simp
  have c4: "send_message (alice_online\<lparr>input_text := ascii ''h'' @ [55296]\<rparr>) None
              = alice_online\<lparr>input_text := ascii ''h'' @ [55296]\<rparr>
                  \<lparr>input_text := [],
                   trace := trace (alice_online\<lparr>input_text := ascii ''h'' @ [55296]\<rparr>)
                     @ [Notice (SystemMessageExn ''Failed to send message: ''
                                  UnicodeEncodeError)]\<rparr>"
    by (rule T [THEN conjunct2, THEN conjunct2, THEN conjunct2, THEN mp, OF h4])
  show ?thesis
    using c1 c2 c3 c4 t by simp
qed

text \<open>
  Counterexample to C9 as stated: alice is connected and types \<open>h\<close> followed by the
  surrogate \<open>U+D800\<close>.  The text is not empty after stripping, yet no \<open>MSG:\<close> message is
  written: the \<open>send\<close> calls are those made before, and the display gets the failure.
\<close>

theorem send_message_unencodable_counterexample:
  "strip (ascii ''h'' @ [55296]) \<noteq> [] \<and>
   client_socket alice_online = Some 4 \<and>
   send_calls_c (send_message (alice_online\<lparr>input_text := ascii ''h'' @ [55296]\<rparr>) None)
     = send_calls_c alice_online \<and>
   trace (send_message (alice_online\<lparr>input_text := ascii ''h'' @ [55296]\<rparr>) None)
     = trace alice_online
         @ [Notice (SystemMessageExn ''Failed to send message: '' UnicodeEncodeError)]"
  by (simp add: client_defs py_defs)

text \<open>
  C10.  Decoding a received chunk has no failing case, and what it drops is dropped
  without trace.  For every byte string the result is a text of valid code points,
  and encoding that text gives back bytes of the chunk, in their order: the decoder
  only leaves bytes out, it never replaces or adds one.  Well-formed UTF-8 is decoded
  to the text it encodes.  A run of bytes that cannot start a sequence, followed or
  not by a cut-off sequence, disappears between two well-formed texts; after a
  well-formed text it disappears before any rest that does not continue the cut-off
  sequence.  The text \<open>_process_client_message\<close> receives is the decoded chunk,
  stripped: a chunk with whitespace around a message is handled as the chunk without
  it; the handler's result is that of \<open>_process_client_message\<close> on the stripped
  decoded text, a raised exception being logged and followed by the disconnection;
  from a client without a name, a chunk whose stripped decoded text does not start
  with \<open>NAME:\<close> changes nothing, and one that does, with a name after it, registers
  that name and raises nothing, whatever bytes were dropped.
\<close>

theorem decoding_total_and_stripped:
  "(\<forall>c \<in> set (utf8_decode_ignore received_data). valid_char c) \<and>
   (\<exists>kept. subseq kept received_data \<and>
           utf8_encode (utf8_decode_ignore received_data) = Inr kept) \<and>
   (utf8_encode t = Inr d \<longrightarrow> utf8_decode_ignore d = t) \<and>
   (utf8_encode t1 = Inr d1 \<and> utf8_encode t2 = Inr d2 \<and> (\<forall>x \<in> set j. invalid_start x) \<and>
    (p = [] \<or> cut_off p) \<longrightarrow>
      utf8_decode_ignore (d1 @ j @ p @ d2) = t1 @ t2) \<and>
   (utf8_encode t1 = Inr d1 \<and> (\<forall>x \<in> set j. invalid_start x) \<and>
    (p = [] \<or> cut_off p \<and> (r = [] \<or> \<not> is_cont (of_char (hd r)))) \<longrightarrow>
      utf8_decode_ignore (d1 @ j @ p @ r) = t1 @ utf8_decode_ignore r) \<and>
   ((\<forall>c \<in> set (ws1 @ ws2). isspace c) \<and> t \<noteq> [] \<and> \<not> isspace (hd t) \<and> \<not> isspace (last t) \<and>
    utf8_encode (ws1 @ t @ ws2) = Inr dw \<and> utf8_encode t = Inr d \<longrightarrow>
      strip (utf8_decode_ignore dw) = t \<and>
      handle_client_data N s c (Received dw) = handle_client_data N s c (Received d)) \<and>
   (received_data \<noteq> [] \<longrightarrow>
      handle_client_data N s c (Received received_data)
        = (case process_client_message N s c (strip (utf8_decode_ignore received_data)) of
             (s1, None) \<Rightarrow> (s1, None)
           | (s1, Some e) \<Rightarrow>
               handle_client_disconnection N
                 (log_message s1 (LineExn ''Error handling client data: '' e)) c)) \<and>
   (received_data \<noteq> [] \<and> map_of (client_names s) c = None \<and>
    \<not> startswith (strip (utf8_decode_ignore received_data)) NAME_PREFIX \<longrightarrow>
      handle_client_data N s c (Received received_data) = (s, None)) \<and>
   (received_data \<noteq> [] \<and> map_of (client_names s) c = None \<and>
    startswith (strip (utf8_decode_ignore received_data)) NAME_PREFIX \<and>
    strip (drop (length NAME_PREFIX) (strip (utf8_decode_ignore received_data))) \<noteq> [] \<longrightarrow>
      snd (handle_client_data N s c (Received received_data)) = None \<and>
      client_names (fst (handle_client_data N s c (Received received_data)))
        = AList.update c
            (strip (drop (length NAME_PREFIX) (strip (utf8_decode_ignore received_data))))
            (client_names s))"
proof (intro conjI impI)
  show "\<forall>c \<in> set (utf8_decode_ignore received_data). valid_char c"
    using decode_valid [of received_data] by blast
next
  show "\<exists>kept. subseq kept received_data \<and>
          utf8_encode (utf8_decode_ignore received_data) = Inr kept"
    by (rule decode_keeps_subseq)
next
  assume "utf8_encode t = Inr d"
  then show "utf8_decode_ignore d = t" by (rule decode_encode)
next
  assume "utf8_encode t1 = Inr d1 \<and> utf8_encode t2 = Inr d2 \<and> (\<forall>x \<in> set j. invalid_start x) \<and>
    (p = [] \<or> cut_off p)"
  then show "utf8_decode_ignore (d1 @ j @ p @ d2) = t1 @ t2"
    by (intro junk_dropped) simp_all
next
  assume "utf8_encode t1 = Inr d1 \<and> (\<forall>x \<in> set j. invalid_start x) \<and>
    (p = [] \<or> cut_off p \<and> (r = [] \<or> \<not> is_cont (of_char (hd r))))"
  then show "utf8_decode_ignore (d1 @ j @ p @ r) = t1 @ utf8_decode_ignore r"
    by (intro junk_skipped) simp_all
next
  assume a: "(\<forall>c \<in> set (ws1 @ ws2). isspace c) \<and> t \<noteq> [] \<and> \<not> isspace (hd t) \<and>
    \<not> isspace (last t) \<and> utf8_encode (ws1 @ t @ ws2) = Inr dw \<and> utf8_encode t = Inr d"
  have dw: "utf8_decode_ignore dw = ws1 @ t @ ws2" and d: "utf8_decode_ignore d = t"
    using a by (simp_all add: decode_encode)
  have s1: "strip (ws1 @ t @ ws2) = t"
    using a by (intro strip_surrounding) simp_all
  have s2: "strip t = t"
    using a strip_surrounding [of "[]" "[]" t] by simp
  have ne: "dw \<noteq> []" "d \<noteq> []"
    using a encode_nonempty [of "ws1 @ t @ ws2" dw] encode_nonempty [of t d] by simp_all
  show "strip (utf8_decode_ignore dw) = t"
    by (simp add: dw s1)
  show "handle_client_data N s c (Received dw) = handle_client_data N s c (Received d)"
    by (simp add: ne dw d s1 s2)
next
  assume "received_data \<noteq> []"
  then show "handle_client_data N s c (Received received_data)
        = (case process_client_message N s c (strip (utf8_decode_ignore received_data)) of
             (s1, None) \<Rightarrow> (s1, None)
           | (s1, Some e) \<Rightarrow>
               handle_client_disconnection N
                 (log_message s1 (LineExn ''Error handling client data: '' e)) c)"
    by (rule handle_client_data_decodes)
next
  assume "received_data \<noteq> [] \<and> map_of (client_names s) c = None \<and>
    \<not> startswith (strip (utf8_decode_ignore received_data)) NAME_PREFIX"
  then show "handle_client_data N s c (Received received_data) = (s, None)"
    by (intro unnamed_other_text) simp_all
next
  assume a: "received_data \<noteq> [] \<and> map_of (client_names s) c = None \<and>
    startswith (strip (utf8_decode_ignore received_data)) NAME_PREFIX \<and>
    strip (drop (length NAME_PREFIX) (strip (utf8_decode_ignore received_data))) \<noteq> []"
  show "snd (handle_client_data N s c (Received received_data)) = None"
    using a unnamed_registers [of received_data s c N] by simp
  show "client_names (fst (handle_client_data N s c (Received received_data)))
        = AList.update c
            (strip (drop (length NAME_PREFIX) (strip (utf8_decode_ignore received_data))))
            (client_names s)"
    using a unnamed_registers [of received_data s c N] by simp
qed

text \<open>
  Witness for C10: a euro sign, a byte \<open>0xFF\<close> and a letter; \<open>MSG:\<close> and \<open>hi\<close> with
  the bytes \<open>0xFF 0x80\<close> and the first two bytes of a euro sign between them; \<open>a\<close>, a
  continuation byte, three bytes of a four-byte sequence and a rest that starts with
  a lead byte; \<open>NAME:bob\<close> with a blank before and a newline after; from the unnamed
  socket 2, \<open>hello\<close> after a byte \<open>0xFF\<close>, and \<open>NAME:bob\<close> among whitespace, a byte
  \<open>0xFF\<close> and a cut-off euro sign.
\<close>

theorem decoding_total_and_stripped_witness:
  "utf8_decode_ignore [CHR 0xE2, CHR 0x82, CHR 0xAC, CHR 0xFF, CHR ''a''] = [8364, 97] \<and>
   valid_char 8364 \<and> valid_char 97 \<and>
   subseq [CHR 0xE2, CHR 0x82, CHR 0xAC, CHR ''a'']
          [CHR 0xE2, CHR 0x82, CHR 0xAC, CHR 0xFF, CHR ''a''] \<and>
   utf8_decode_ignore [CHR 0xE2, CHR 0x82, CHR 0xAC] = [8364] \<and>
   utf8_decode_ignore (''MSG:'' @ [CHR 0xFF, CHR 0x80] @ [CHR 0xE2, CHR 0x82] @ ''hi'')
     = ascii ''MSG:hi'' \<and>
   utf8_decode_ignore (''a'' @ [CHR 0x80] @ [CHR 0xF0, CHR 0x9F, CHR 0x98] @ [CHR 0xC3, CHR ''b''])
     = ascii ''a'' @ utf8_decode_ignore [CHR 0xC3, CHR ''b''] \<and>
   strip (utf8_decode_ignore ('' NAME:bob'' @ [CHR 0x0A])) = ascii ''NAME:bob'' \<and>
   handle_client_data quiet_network two_clients 2 (Received ('' NAME:bob'' @ [CHR 0x0A]))
     = handle_client_data quiet_network two_clients 2 (Received ''NAME:bob'') \<and>
   handle_client_data quiet_network two_clients 2 (Received ([CHR 0xFF] @ ''hello''))
     = (case process_client_message quiet_network two_clients 2
               (strip (utf8_decode_ignore ([CHR 0xFF] @ ''hello''))) of
          (s1, None) \<Rightarrow> (s1, None)
        | (s1, Some e) \<Rightarrow>
            handle_client_disconnection quiet_network
              (log_message s1 (LineExn ''Error handling client data: '' e)) 2) \<and>
   handle_client_data quiet_network two_clients 2 (Received ([CHR 0xFF] @ ''hello''))
     = (two_clients, None) \<and>
   snd (handle_client_data quiet_network two_clients 2
          (Received ('' '' @ [CHR 0xFF] @ ''NAME:bob'' @ [CHR 0xE2, CHR 0x82, CHR 0x0A])))
     = None \<and>
   client_names (fst (handle_client_data quiet_network two_clients 2
          (Received ('' '' @ [CHR 0xFF] @ ''NAME:bob'' @ [CHR 0xE2, CHR 0x82, CHR 0x0A]))))
     = [(2, ascii ''bob'')]"
proof -
  let ?D = "[CHR 0xE2, CHR 0x82, CHR 0xAC, CHR 0xFF, CHR ''a'']"
  let ?R = "'' '' @ [CHR 0xFF] @ ''NAME:bob'' @ [CHR 0xE2, CHR 0x82, CHR 0x0A]"
  let ?H = "[CHR 0xFF] @ ''hello''"
  note T = decoding_total_and_stripped
  have e0: "utf8_decode_ignore ?D = [8364, 97]"
    by (simp add: py_defs)
  have e1: "utf8_encode [8364, 97] = Inr [CHR 0xE2, CHR 0x82, CHR 0xAC, CHR ''a'']"
    by (simp add: py_defs)
  have h3: "utf8_encode [8364] = Inr [CHR 0xE2, CHR 0x82, CHR 0xAC]"
    by (simp add: py_defs)
  have h4: "utf8_encode (ascii ''MSG:'') = Inr ''MSG:'' \<and> utf8_encode (ascii ''hi'') = Inr ''hi'' \<and>
            (\<forall>x \<in> set [CHR 0xFF, CHR 0x80]. invalid_start x) \<and>
            ([CHR 0xE2, CHR 0x82] = [] \<or> cut_off [CHR 0xE2, CHR 0x82])"
    by (simp add: py_defs utf_defs)
  have h4': "utf8_encode (ascii ''a'') = Inr ''a'' \<and> (\<forall>x \<in> set [CHR 0x80]. invalid_start x) \<and>
             ([CHR 0xF0, CHR 0x9F, CHR 0x98] = [] \<or>
              cut_off [CHR 0xF0, CHR 0x9F, CHR 0x98] \<and>
              ([CHR 0xC3, CHR ''b''] = [] \<or> \<not> is_cont (of_char (hd [CHR 0xC3, CHR ''b'']))))"
    by (simp add: py_defs utf_defs)
  have h5: "(\<forall>c \<in> set ([32] @ [10]). isspace c) \<and> ascii ''NAME:bob'' \<noteq> [] \<and>
            \<not> isspace (hd (ascii ''NAME:bob'')) \<and> \<not> isspace (last (ascii ''NAME:bob'')) \<and>
            utf8_encode ([32] @ ascii ''NAME:bob'' @ [10]) = Inr ('' NAME:bob'' @ [CHR 0x0A]) \<and>
            utf8_encode (ascii ''NAME:bob'') = Inr ''NAME:bob''"
    by (simp add: py_defs)
  have h7: "?H \<noteq> [] \<and> map_of (client_names two_clients) 2 = None \<and>
            \<not> startswith (strip (utf8_decode_ignore ?H)) NAME_PREFIX"
    by (simp add: example_defs server_defs py_defs)
  have h8: "?R \<noteq> [] \<and> map_of (client_names two_clients) 2 = None \<and>
            startswith (strip (utf8_decode_ignore ?R)) NAME_PREFIX \<and>
            strip (drop (length NAME_PREFIX) (strip (utf8_decode_ignore ?R))) \<noteq> []"
    by (simp add: example_defs server_defs py_defs)
  have u: "AList.update 2 (strip (drop (length NAME_PREFIX) (strip (utf8_decode_ignore ?R))))
             (client_names two_clients) = [(2, ascii ''bob'')]"
    by (simp add: example_defs server_defs py_defs)
  have a: "ascii ''MSG:'' @ ascii ''hi'' = ascii ''MSG:hi''"
    by (simp add: ascii_def)
  have c1: "\<forall>c \<in> set (utf8_decode_ignore ?D). valid_char c"
    by (rule T [THEN conjunct1])
  have c2: "\<exists>kept. subseq kept ?D \<and> utf8_encode (utf8_decode_ignore ?D) = Inr kept"
    by (rule T [THEN conjunct2, THEN conjunct1])
  have c3: "utf8_decode_ignore [CHR 0xE2, CHR 0x82, CHR 0xAC] = [8364]"
    by (rule T [THEN conjunct2, THEN conjunct2, THEN conjunct1, THEN mp, OF h3])
  have c4: "utf8_decode_ignore (''MSG:'' @ [CHR 0xFF, CHR 0x80] @ [CHR 0xE2, CHR 0x82] @ ''hi'')
              = ascii ''MSG:'' @ ascii ''hi''"
    by (rule T [THEN conjunct2, THEN conjunct2, THEN conjunct2, THEN conjunct1, THEN mp, OF h4])
  have c4': "utf8_decode_ignore (''a'' @ [CHR 0x80] @ [CHR 0xF0, CHR 0x9F, CHR 0x98] @ [CHR 0xC3, CHR ''b''])
              = ascii ''a'' @ utf8_decode_ignore [CHR 0xC3, CHR ''b'']"
    by (rule T [THEN conjunct2, THEN conjunct2, THEN conjunct2, THEN conjunct2, THEN conjunct1,
                THEN mp, OF h4'])
  have c5: "strip (utf8_decode_ignore ('' NAME:bob'' @ [CHR 0x0A])) = ascii ''NAME:bob'' \<and>
            handle_client_data quiet_network two_clients 2
              (Received ('' NAME:bob'' @ [CHR 0x0A]))
              = handle_client_data quiet_network two_clients 2 (Received ''NAME:bob'')"
    by (rule T [THEN conjunct2, THEN conjunct2, THEN conjunct2, THEN conjunct2, THEN conjunct2,
                THEN conjunct1, THEN mp, OF h5])
  have h6: "?H \<noteq> []"
    by simp
  have c6: "handle_client_data quiet_network two_clients 2 (Received ?H)
     = (case process_client_message quiet_network two_clients 2
               (strip (utf8_decode_ignore ?H)) of
          (s1, None) \<Rightarrow> (s1, None)
        | (s1, Some e) \<Rightarrow>
            handle_client_disconnection quiet_network
              (log_message s1 (LineExn ''Error handling client data: '' e)) 2)"
    by (rule T [THEN conjunct2, THEN conjunct2, THEN conjunct2, THEN conjunct2, THEN conjunct2,
                THEN conjunct2, THEN conjunct1, THEN mp, OF h6])
  have c7: "handle_client_data quiet_network two_clients 2 (Received ?H) = (two_clients, None)"
    by (rule T [THEN conjunct2, THEN conjunct2, THEN conjunct2, THEN conjunct2, THEN conjunct2,
                THEN conjunct2, THEN conjunct2, THEN conjunct1, THEN mp, OF h7])
  have c8: "snd (handle_client_data quiet_network two_clients 2 (Received ?R)) = None \<and>
            client_names (fst (handle_client_data quiet_network two_clients 2 (Received ?R)))
              = AList.update 2
                  (strip (drop (length NAME_PREFIX) (strip (utf8_decode_ignore ?R))))
                  (client_names two_clients)"
    by (rule T [THEN conjunct2, THEN conjunct2, THEN conjunct2, THEN conjunct2, THEN conjunct2,
                THEN conjunct2, THEN conjunct2, THEN conjunct2, THEN mp, OF h8])
  have v: "valid_char 8364 \<and> valid_char 97"
    using c1 unfolding e0 by simp
  have k: "subseq [CHR 0xE2, CHR 0x82, CHR 0xAC, CHR ''a''] ?D"
    using c2 unfolding e0 e1 by simp
  show ?thesis
    using e0 v k c3 c4 [unfolded a] c4' c5 c6 c7 c8 [unfolded u] by blast
qed

end
